theory Spec2Isabelle
  imports Main "HOL-Library.Word"
begin

section \<open>The room timetable scraper: data model\<close>

text \<open>
  The program (\<^verbatim>\<open>room_scrape.go\<close>) is one \<^verbatim>\<open>main\<close> function made of callbacks that
  the scraping framework runs on the elements a CSS selector matches. The embedding keeps
  the callbacks and replaces a matched element by the texts the callback reads from it:
  a header element by the three \<^verbatim>\<open>ChildText\<close> results \<^verbatim>\<open>date\<close>, \<^verbatim>\<open>room\<close>, \<^verbatim>\<open>week\<close>;
  a grid row by \<^verbatim>\<open>dayName\<close>, \<^verbatim>\<open>subject\<close>, \<^verbatim>\<open>time\<close>; a \<^verbatim>\<open>ForEach\<close> by the list of the
  elements it visits, in document order. Strings are byte lists, as in Go. A panic of the
  source is the value \<open>Inl\<close> of a sum. Log records do not influence any value of the
  parser or of the fold and are left out there; the error log of the request path is a
  component of the program state.

  The repository holds three more variants of the file. Their parser and fold are the
  ones modelled here, but for the oldest, which keeps the five days in five struct
  fields. The variant with the webhook upload (\<^verbatim>\<open>unnamed/part_001\<close>) differs in its
  \<^verbatim>\<open>OnError\<close> callbacks, which end in \<^verbatim>\<open>os.Exit(1)\<close>; its callback of the room collector
  is modelled next to the one of \<^verbatim>\<open>room_scrape.go\<close>.
\<close>

text \<open>
  A Go run-time panic. The only one the modelled code can raise is an index out of range.
\<close>

datatype error = IndexOutOfRange

text \<open>
  The error a room request ends with: a timeout or a transport error of the network, with
  its message, or the error of the HTTP client that has fewer bytes of body to send than
  the \<^verbatim>\<open>Content-Length\<close> it announced.
\<close>

datatype requestError = TransportError string | BodyLengthError

text \<open>
  A record of the error log: the text of an error value (\<^verbatim>\<open>slog.Error(err.Error())\<close>), for
  a failed request or for the week code \<^verbatim>\<open>Atoi\<close> rejected, or a message of the program.
\<close>

datatype logRecord = ErrorText requestError | AtoiErrorText string | Message string

text \<open>
  How a run ends early: a panic, or \<^verbatim>\<open>os.Exit\<close> with a status, after the error log
  written so far.
\<close>

datatype stop = Panic error | Exit int "logRecord list"

record Timetable =
  Error :: bool
  Empty :: bool
  Date :: string
  Room :: string
  Week :: string
  FreeTimes :: "string \<rightharpoonup> string list"

record headerElement =
  date :: string
  room :: string
  week :: string

record timetableRowElement =
  dayName :: string
  subject :: string
  time :: string

text \<open>
  The element \<^verbatim>\<open>div#divTT\<close> handed to the parser: the elements matching
  \<^verbatim>\<open>table:nth-child(1)\<close> and, for each element matching \<^verbatim>\<open>table:nth-child(2)\<close>, its rows
  matching \<^verbatim>\<open>tr:not(:first-child)\<close>.
\<close>

record tableContainerElement =
  headers :: "headerElement list"
  timetables :: "timetableRowElement list list"

definition days :: "string list" where
  "days = [''Monday'', ''Tuesday'', ''Wednesday'', ''Thursday'', ''Friday'']"

section \<open>Go primitives used by the parser\<close>

text \<open>
  \<^verbatim>\<open>strings.Split(s, sep)\<close> for a separator of one byte: one more
  piece than separators.
\<close>

fun Split :: "string \<Rightarrow> char \<Rightarrow> string list" where
  "Split [] sep = [[]]"
| "Split (c # cs) sep =
     (if c = sep then [] # Split cs sep
      else (case Split cs sep of
              [] \<Rightarrow> [[c]]
            | piece # pieces \<Rightarrow> (c # piece) # pieces))"

text \<open>
  \<^verbatim>\<open>xs[i]\<close> on a slice: a panic outside \<^verbatim>\<open>0 <= i <
  len(xs)\<close>.
\<close>

definition index :: "'a list \<Rightarrow> int \<Rightarrow> error + 'a" where
  "index xs i = (if 0 \<le> i \<and> i < int (length xs) then Inr (xs ! nat i) else Inl IndexOutOfRange)"

text \<open>
  \<^verbatim>\<open>m[k]\<close> on a map of slices: the nil slice for a missing key.
\<close>

definition lookup :: "('k \<rightharpoonup> 'v list) \<Rightarrow> 'k \<Rightarrow> 'v list" where
  "lookup m k = (case m k of None \<Rightarrow> [] | Some vs \<Rightarrow> vs)"

text \<open>
  \<^verbatim>\<open>ForEach\<close>: the callback on every element in order, threading the variables the closure
  captures. A panic in the callback ends the iteration (and the program).
\<close>

fun ForEach :: "'e list \<Rightarrow> ('e \<Rightarrow> 's \<Rightarrow> 'x + 's) \<Rightarrow> 's \<Rightarrow> 'x + 's" where
  "ForEach [] f s = Inr s"
| "ForEach (e # es) f s = (case f e s of Inl err \<Rightarrow> Inl err | Inr s' \<Rightarrow> ForEach es f s')"

section \<open>TimetableParser: the callback on \<^verbatim>\<open>div#divTT\<close>\<close>

subsection \<open>Header extraction\<close>

definition headerDate :: "headerElement \<Rightarrow> Timetable \<Rightarrow> error + Timetable" where
  "headerDate h timetable =
     (if date h \<noteq> [] then
        (case index (Split (date h) CHR '' '') 1 of
           Inl err \<Rightarrow> Inl err
         | Inr d \<Rightarrow> Inr (timetable\<lparr>Date := d\<rparr>))
      else Inr (timetable\<lparr>Error := True\<rparr>))"

definition headerRoom :: "headerElement \<Rightarrow> Timetable \<Rightarrow> error + Timetable" where
  "headerRoom h timetable =
     (if room h \<noteq> [] then
        (case index (Split (room h) CHR '' '') 2 of
           Inl err \<Rightarrow> Inl err
         | Inr r \<Rightarrow> Inr (timetable\<lparr>Room := r\<rparr>))
      else Inr (timetable\<lparr>Error := True\<rparr>))"

definition headerWeek :: "headerElement \<Rightarrow> Timetable \<Rightarrow> error + Timetable" where
  "headerWeek h timetable =
     (if week h \<noteq> [] then
        (case index (Split (week h) CHR '' '') 2 of
           Inl err \<Rightarrow> Inl err
         | Inr w \<Rightarrow> Inr (timetable\<lparr>Week := w\<rparr>))
      else Inr (timetable\<lparr>Error := True\<rparr>))"

text \<open>
  The callback of \<^verbatim>\<open>ForEach("table:nth-child(1)", ...)\<close>: date, then
  room, then week.
\<close>

definition headerCallback :: "headerElement \<Rightarrow> Timetable \<Rightarrow> error + Timetable" where
  "headerCallback h timetable =
     (case headerDate h timetable of
        Inl err \<Rightarrow> Inl err
      | Inr t1 \<Rightarrow>
          (case headerRoom h t1 of
             Inl err \<Rightarrow> Inl err
           | Inr t2 \<Rightarrow> headerWeek h t2))"

subsection \<open>The grid state machine\<close>

text \<open>
  The callback of \<^verbatim>\<open>ForEach("tr:not(:first-child)", ...)\<close>. Its state is the captured pair
  of the day cursor \<^verbatim>\<open>currentDay\<close> and the record under construction. The three
  \<^verbatim>\<open>return\<close>s of the source are the three branches, in the source's order.
\<close>

definition rowCallback ::
  "timetableRowElement \<Rightarrow> int \<times> Timetable \<Rightarrow> error + int \<times> Timetable" where
  "rowCallback r s =
     (case s of (currentDay, timetable) \<Rightarrow>
        if dayName r \<in> set days then Inr (currentDay + 1, timetable)
        else if subject r \<noteq> [] then Inr (currentDay, timetable\<lparr>Empty := False\<rparr>)
        else if currentDay = - 1 then Inr (currentDay, timetable\<lparr>Error := True\<rparr>)
        else (case index days currentDay of
                Inl err \<Rightarrow> Inl err
              | Inr day \<Rightarrow>
                  Inr (currentDay,
                       timetable\<lparr>FreeTimes :=
                         (FreeTimes timetable)(day \<mapsto> lookup (FreeTimes timetable) day @ [time r])\<rparr>)))"

text \<open>
  The callback of \<^verbatim>\<open>ForEach("table:nth-child(2)", ...)\<close>: \<^verbatim>\<open>currentDay := -1\<close>, then the
  rows. The cursor is local to the callback and dropped at its end.
\<close>

definition timetableCallback :: "timetableRowElement list \<Rightarrow> Timetable \<Rightarrow> error + Timetable" where
  "timetableCallback rows timetable =
     (case ForEach rows rowCallback (- 1, timetable) of
        Inl err \<Rightarrow> Inl err
      | Inr s \<Rightarrow> Inr (snd s))"

definition newTimetable :: Timetable where
  "newTimetable =
     \<lparr>Error = False, Empty = True, Date = [], Room = [], Week = [], FreeTimes = Map.empty\<rparr>"

text \<open>
  The record the callback on \<^verbatim>\<open>div#divTT\<close> appends to
  \<^verbatim>\<open>timetableList\<close>.
\<close>

definition parse :: "tableContainerElement \<Rightarrow> error + Timetable" where
  "parse e =
     (case ForEach (headers e) headerCallback newTimetable of
        Inl err \<Rightarrow> Inl err
      | Inr t \<Rightarrow> ForEach (timetables e) timetableCallback t)"

text \<open>The three kinds of grid row, by the tests of the row callback in their order.\<close>

definition isDayMarker :: "timetableRowElement \<Rightarrow> bool" where
  "isDayMarker r = (dayName r \<in> set days)"

definition isSubject :: "timetableRowElement \<Rightarrow> bool" where
  "isSubject r = (\<not> isDayMarker r \<and> subject r \<noteq> [])"

definition isFree :: "timetableRowElement \<Rightarrow> bool" where
  "isFree r = (\<not> isDayMarker r \<and> subject r = [])"

text \<open>The number of free-slot entries of a record, over the five days.\<close>

definition freeSlotCount :: "Timetable \<Rightarrow> nat" where
  "freeSlotCount t = sum_list (map (\<lambda>d. length (lookup (FreeTimes t) d)) days)"

text \<open>The free rows of one grid that come after its first day-marker row.\<close>

definition freeRowsAfterMarker :: "timetableRowElement list \<Rightarrow> nat" where
  "freeRowsAfterMarker rows = length (filter isFree (dropWhile (\<lambda>r. \<not> isDayMarker r) rows))"

text \<open>
  The two indexing preconditions of the parser: a non-empty header cell has a piece at the
  index the code reads, and a grid has at most five day-marker rows.
\<close>

definition headerOk :: "headerElement \<Rightarrow> bool" where
  "headerOk h =
     ((date h = [] \<or> 2 \<le> length (Split (date h) CHR '' '')) \<and>
      (room h = [] \<or> 3 \<le> length (Split (room h) CHR '' '')) \<and>
      (week h = [] \<or> 3 \<le> length (Split (week h) CHR '' '')))"

definition gridOk :: "timetableRowElement list \<Rightarrow> bool" where
  "gridOk rows = (length (filter isDayMarker rows) \<le> 5)"

text \<open>Overwriting the header fields of a record, and raising its error flag.\<close>

definition withHeader :: "bool \<Rightarrow> string \<Rightarrow> string \<Rightarrow> string \<Rightarrow> Timetable \<Rightarrow> Timetable" where
  "withHeader er d r w t = t\<lparr>Error := Error t \<or> er, Date := d, Room := r, Week := w\<rparr>"

section \<open>ResultAggregator: the fold over \<^verbatim>\<open>timetableList\<close>\<close>

text \<open>
  The variables of the aggregation loop. The counters stay far below the range of a Go
  \<^verbatim>\<open>int\<close>.
\<close>

type_synonym FreeRoomTable = "string \<rightharpoonup> (string \<rightharpoonup> string list)"

record summary =
  errorCount :: int
  emptyTimetableCount :: int
  freeTimesCount :: int
  timetableCount :: int
  freeRoomTable :: FreeRoomTable

text \<open>
  The two statements of the innermost loop on the table: create the day's map when it is
  nil, then append the room to the bucket of the time.
\<close>

definition appendRoom :: "FreeRoomTable \<Rightarrow> string \<Rightarrow> string \<Rightarrow> string \<Rightarrow> FreeRoomTable" where
  "appendRoom table day tm rm =
     (let byTime = (case table day of None \<Rightarrow> Map.empty | Some m \<Rightarrow> m)
      in table(day \<mapsto> byTime(tm \<mapsto> lookup byTime tm @ [rm])))"

definition timeBody :: "Timetable \<Rightarrow> string \<Rightarrow> string \<Rightarrow> summary \<Rightarrow> summary" where
  "timeBody timetable day tm a =
     a\<lparr>freeTimesCount := freeTimesCount a + 1,
       freeRoomTable := appendRoom (freeRoomTable a) day tm (Room timetable)\<rparr>"

definition dayBody :: "Timetable \<Rightarrow> string \<Rightarrow> summary \<Rightarrow> summary" where
  "dayBody timetable day a = fold (timeBody timetable day) (lookup (FreeTimes timetable) day) a"

definition timetableBody :: "Timetable \<Rightarrow> summary \<Rightarrow> summary" where
  "timetableBody timetable a =
     fold (dayBody timetable) days
       (a\<lparr>timetableCount := timetableCount a + 1,
          errorCount := (if Error timetable then errorCount a + 1 else errorCount a),
          emptyTimetableCount :=
            (if Empty timetable then emptyTimetableCount a + 1 else emptyTimetableCount a)\<rparr>)"

definition newSummary :: summary where
  "newSummary =
     \<lparr>errorCount = 0, emptyTimetableCount = 0, freeTimesCount = 0, timetableCount = 0,
      freeRoomTable = Map.empty\<rparr>"

definition aggregate :: "Timetable list \<Rightarrow> summary" where
  "aggregate timetableList = fold timetableBody timetableList newSummary"

text \<open>
  \<^verbatim>\<open>freeRoomTable[day][time]\<close>: nil when either key is missing.
\<close>

definition bucket :: "FreeRoomTable \<Rightarrow> string \<Rightarrow> string \<Rightarrow> string list" where
  "bucket table day tm = (case table day of None \<Rightarrow> [] | Some byTime \<Rightarrow> lookup byTime tm)"

text \<open>
  Merging two tables as the specification words it: the bucket lists of the second
  appended after those of the first, key by key. This one is written from the
  specification; the fold above is the code.
\<close>

definition mergeBuckets ::
  "(string \<rightharpoonup> string list) \<Rightarrow> (string \<rightharpoonup> string list) \<Rightarrow> (string \<rightharpoonup> string list)" where
  "mergeBuckets m1 m2 =
     (\<lambda>tm. case m1 tm of
             None \<Rightarrow> m2 tm
           | Some xs \<Rightarrow> (case m2 tm of None \<Rightarrow> Some xs | Some ys \<Rightarrow> Some (xs @ ys)))"

definition mergeTables :: "FreeRoomTable \<Rightarrow> FreeRoomTable \<Rightarrow> FreeRoomTable" where
  "mergeTables t1 t2 =
     (\<lambda>day. case t1 day of
              None \<Rightarrow> t2 day
            | Some m1 \<Rightarrow> (case t2 day of None \<Rightarrow> Some m1 | Some m2 \<Rightarrow> Some (mergeBuckets m1 m2)))"

section \<open>SessionBootstrapper and RoomRequestDispatcher\<close>

subsection \<open>\<^verbatim>\<open>strconv.Atoi\<close> and \<^verbatim>\<open>strconv.Itoa\<close>\<close>

text \<open>
  The two library functions of the week computation, after their documentation, for a Go
  \<^verbatim>\<open>int\<close> of 64 bits: \<^verbatim>\<open>Atoi\<close> accepts an optional sign and one or more decimal digits,
  and fails on a value outside the range of \<^verbatim>\<open>int\<close>; \<^verbatim>\<open>Itoa\<close> is the decimal rendering,
  with a minus sign for a negative value. The sum \<^verbatim>\<open>weekInt+weekOffset\<close> is the addition of
  64-bit words, which wraps.
\<close>

definition isDigit :: "char \<Rightarrow> bool" where
  "isDigit c = (c \<in> set ''0123456789'')"

definition digitOf :: "char \<Rightarrow> nat" where
  "digitOf c = of_char c - of_char CHR ''0''"

definition digitChar :: "nat \<Rightarrow> char" where
  "digitChar d = ''0123456789'' ! d"

definition digitsValue :: "string \<Rightarrow> nat" where
  "digitsValue ds = foldl (\<lambda>n c. n * 10 + digitOf c) 0 ds"

fun formatUint :: "nat \<Rightarrow> string" where
  "formatUint n =
     (if n < 10 then [digitChar n] else formatUint (n div 10) @ [digitChar (n mod 10)])"

definition formatInt :: "int \<Rightarrow> string" where
  "formatInt i = (if i < 0 then CHR ''-'' # formatUint (nat (- i)) else formatUint (nat i))"

definition Itoa :: "64 word \<Rightarrow> string" where
  "Itoa i = formatInt (sint i)"

definition Atoi :: "string \<Rightarrow> 64 word option" where
  "Atoi s =
     (let neg = (s \<noteq> [] \<and> hd s = CHR ''-'');
          ds = (if s \<noteq> [] \<and> (hd s = CHR ''-'' \<or> hd s = CHR ''+'') then tl s else s);
          n = (if neg then - int (digitsValue ds) else int (digitsValue ds))
      in if ds = [] \<or> \<not> list_all isDigit ds then None
         else if n < - 9223372036854775808 \<or> 9223372036854775808 \<le> n then None
         else Some (word_of_int n))"

subsection \<open>The program state of \<^verbatim>\<open>main\<close>\<close>

text \<open>
  \<^verbatim>\<open>url.Values\<close> is a map from a field name to the list of its values. The state holds the
  variables the callbacks share: the form parameters and the list of parsed records; two
  traces of effects: the bodies of the POST requests handed to the room collector, and
  the \<^verbatim>\<open>slog.Error\<close> records of the bootstrap and request paths; and, of the HTTP client
  the two collectors share, whether it holds an idle connection to the host that the next
  request can reuse.
\<close>

type_synonym Values = "string \<rightharpoonup> string list"

definition Values_Add :: "Values \<Rightarrow> string \<Rightarrow> string \<Rightarrow> Values" where
  "Values_Add v key val = v(key \<mapsto> lookup v key @ [val])"

definition Values_Set :: "Values \<Rightarrow> string \<Rightarrow> string \<Rightarrow> Values" where
  "Values_Set v key val = v(key \<mapsto> [val])"

record state =
  roomPostQueryParams :: Values
  timetableList :: "Timetable list"
  posted :: "Values list"
  errorLog :: "logRecord list"
  idleConn :: bool

definition initialParams :: Values where
  "initialParams =
     Values_Add (Values_Add (Values_Add (Values_Add (Values_Add (Values_Add (Values_Add
       (Values_Add (Values_Add (Values_Add Map.empty
         ''__EVENTTARGET'' [])
         ''__EVENTARGUMENT'' [])
         ''__LASTFOCUS'' [])
         ''hProgram'' [])
         ''hStudentcount'' [])
         ''cboSchool'' ''%'')
         ''CboDept'' ''%'')
         ''CboStartTime'' ''1'')
         ''CboEndTime'' ''9'')
         ''BtnRetrieve'' ''Generate Timetable''"

text \<open>
  The state in which the callback on the landing page starts: the GET of the landing page
  has been answered and has left its connection idle.
\<close>

definition initialState :: state where
  "initialState =
     \<lparr>roomPostQueryParams = initialParams, timetableList = [], posted = [], errorLog = [],
      idleConn = True\<rparr>"

subsection \<open>The room collector\<close>

text \<open>
  The body of a request is a reader (\<^verbatim>\<open>strings.NewReader\<close>) over the encoded form. The
  encoding is left abstract: the data of the reader is the form itself. \<^verbatim>\<open>io.ReadAll\<close>
  returns what is left to read and leaves the reader at its end.
\<close>

record Reader =
  readerData :: Values
  atEnd :: bool

definition NewReader :: "Values \<Rightarrow> Reader" where
  "NewReader v = \<lparr>readerData = v, atEnd = False\<rparr>"

definition ReadAll :: "Reader \<Rightarrow> Values \<times> Reader" where
  "ReadAll r = ((if atEnd r then Map.empty else readerData r), r\<lparr>atEnd := True\<rparr>)"

text \<open>
  The \<^verbatim>\<open>OnRequest\<close> callback of the room collector. It reads \<^verbatim>\<open>r.Body\<close>, which is the
  reader handed to \<^verbatim>\<open>Request\<close>, to its end, and logs the room found in it at level Info
  (no record of the error log). What it leaves behind is the reader at its end.
\<close>

definition roomCollector_OnRequest :: "Reader \<Rightarrow> Reader" where
  "roomCollector_OnRequest body = (case ReadAll body of (queryValues, body') \<Rightarrow> body')"

text \<open>
  What the network and the server do with a room request whose body arrives in full: the
  request fails (a timeout or a transport error, with its message), or a document is
  rendered, given by its elements matching \<^verbatim>\<open>div#divTT\<close>.
\<close>

datatype response = RequestFailed string | Rendered "tableContainerElement list"

text \<open>
  The round trip of the HTTP client, as far as the program depends on it. The client
  announces the length the body had when the request was built. With the reader at its
  end it has no byte of body to write: on a connection it reuses it sends the request
  again from the copy of the body taken when the request was built, and on a new
  connection the request fails. A request that fails loses the connection; a request that
  is answered leaves it idle for the next one. The result is the error or the elements,
  and whether an idle connection is left.
\<close>

definition roundTrip ::
  "Reader \<Rightarrow> response \<Rightarrow> bool \<Rightarrow> (requestError + tableContainerElement list) \<times> bool" where
  "roundTrip body answer idle =
     (if atEnd body \<and> \<not> idle then (Inl BodyLengthError, False)
      else (case answer of
              RequestFailed err \<Rightarrow> (Inl (TransportError err), False)
            | Rendered elements \<Rightarrow> (Inr elements, True)))"

text \<open>
  The \<^verbatim>\<open>OnHTML\<close> callback: parse, then \<^verbatim>\<open>timetableList = append(timetableList, timetable)\<close>.
\<close>

definition roomCollector_OnHTML :: "tableContainerElement \<Rightarrow> state \<Rightarrow> stop + state" where
  "roomCollector_OnHTML e s =
     (case parse e of
        Inl err \<Rightarrow> Inl (Panic err)
      | Inr timetable \<Rightarrow> Inr (s\<lparr>timetableList := timetableList s @ [timetable]\<rparr>))"

text \<open>The \<^verbatim>\<open>OnError\<close> callback of \<^verbatim>\<open>room_scrape.go\<close>: two log records.\<close>

definition roomCollector_OnError :: "requestError \<Rightarrow> state \<Rightarrow> stop + state" where
  "roomCollector_OnError err s =
     Inr (s\<lparr>errorLog := errorLog s @ [ErrorText err, Message ''Requesting room failed'']\<rparr>)"

text \<open>
  The \<^verbatim>\<open>OnError\<close> callback of the variant of the program with the webhook upload
  (\<^verbatim>\<open>unnamed/part_001\<close>): the same two log records, then \<^verbatim>\<open>os.Exit(1)\<close>.
\<close>

definition roomCollector_OnError_exit :: "requestError \<Rightarrow> state \<Rightarrow> stop + state" where
  "roomCollector_OnError_exit err s =
     Inl (Exit 1 (errorLog s @ [ErrorText err, Message ''Requesting room failed'']))"

text \<open>
  \<^verbatim>\<open>roomCollector.Request\<close>, as the framework runs it: the \<^verbatim>\<open>OnRequest\<close> callback on the
  request, then the round trip; on an error the \<^verbatim>\<open>OnError\<close> callback, and the error is
  returned; on a document the \<^verbatim>\<open>OnHTML\<close> callback on every element matching
  \<^verbatim>\<open>div#divTT\<close>, and nil is returned. The \<^verbatim>\<open>OnError\<close> callback is a parameter.
\<close>

definition roomCollector_Request ::
  "(requestError \<Rightarrow> state \<Rightarrow> stop + state) \<Rightarrow> Reader \<Rightarrow> response \<Rightarrow> state \<Rightarrow>
   stop + requestError option \<times> state" where
  "roomCollector_Request onError requestData answer s =
     (let body = roomCollector_OnRequest requestData
      in case roundTrip body answer (idleConn s) of
           (Inl err, idle) \<Rightarrow>
             (case onError err (s\<lparr>idleConn := idle\<rparr>) of
                Inl st \<Rightarrow> Inl st
              | Inr s' \<Rightarrow> Inr (Some err, s'))
         | (Inr elements, idle) \<Rightarrow>
             (case ForEach elements roomCollector_OnHTML (s\<lparr>idleConn := idle\<rparr>) of
                Inl st \<Rightarrow> Inl st
              | Inr s' \<Rightarrow> Inr (None, s')))"

text \<open>
  The callback on one option of the room selector: when the pattern matches, set the room
  in the form, hand the encoded form to \<^verbatim>\<open>Request\<close>, and log the error it returns, if any.
  \<^verbatim>\<open>roomRegexp\<close> and the \<^verbatim>\<open>OnError\<close> callback are parameters; an option comes with the
  answer its request gets when its body arrives.
\<close>

definition roomOptionCallback ::
  "(string \<Rightarrow> bool) \<Rightarrow> (requestError \<Rightarrow> state \<Rightarrow> stop + state) \<Rightarrow>
   string \<times> response \<Rightarrow> state \<Rightarrow> stop + state" where
  "roomOptionCallback roomRegexp onError opt s =
     (case opt of (roomName, answer) \<Rightarrow>
        if roomRegexp roomName then
          (let params = Values_Set (roomPostQueryParams s) ''CboLocation'' roomName;
               s1 = s\<lparr>roomPostQueryParams := params, posted := posted s @ [params]\<rparr>
           in case roomCollector_Request onError (NewReader params) answer s1 of
                Inl st \<Rightarrow> Inl st
              | Inr (None, s2) \<Rightarrow> Inr s2
              | Inr (Some err, s2) \<Rightarrow>
                  Inr (s2\<lparr>errorLog :=
                         errorLog s2 @ [ErrorText err, Message ''Room POST request failed'']\<rparr>))
        else Inr s)"

subsection \<open>The callback on the landing page\<close>

record bodyElement =
  hiddenInputs :: "(string \<times> string) list"
  selectedWeek :: string
  roomOptions :: "(string \<times> response) list"

text \<open>
  The callback on one hidden input, given as its \<^verbatim>\<open>name\<close> and
  \<^verbatim>\<open>value\<close> attributes.
\<close>

definition hiddenInputCallback :: "string \<times> string \<Rightarrow> Values \<Rightarrow> Values" where
  "hiddenInputCallback inp params =
     (case inp of (name, val) \<Rightarrow>
        if name = ''__VIEWSTATE'' then Values_Add params ''__VIEWSTATE'' val
        else if name = ''__VIEWSTATEGENERATOR'' then Values_Add params ''__VIEWSTATEGENERATOR'' val
        else if name = ''__EVENTVALIDATION'' then Values_Add params ''__EVENTVALIDATION'' val
        else params)"

text \<open>
  The week code: the offset is applied when \<^verbatim>\<open>Atoi\<close> succeeds, the
  raw string kept otherwise.
\<close>

definition weekCallback :: "64 word \<Rightarrow> string \<Rightarrow> state \<Rightarrow> state" where
  "weekCallback weekOffset wk s =
     (case Atoi wk of
        None \<Rightarrow>
          s\<lparr>errorLog :=
              errorLog s @ [AtoiErrorText wk, Message ''Failed to convert week string to int''],
            roomPostQueryParams := Values_Add (roomPostQueryParams s) ''CboWeeks'' wk\<rparr>
      | Some weekInt \<Rightarrow>
          s\<lparr>roomPostQueryParams :=
              Values_Add (roomPostQueryParams s) ''CboWeeks'' (Itoa (weekInt + weekOffset))\<rparr>)"

definition bodyCallback ::
  "(string \<Rightarrow> bool) \<Rightarrow> (requestError \<Rightarrow> state \<Rightarrow> stop + state) \<Rightarrow> 64 word \<Rightarrow>
   bodyElement \<Rightarrow> state \<Rightarrow> stop + state" where
  "bodyCallback roomRegexp onError weekOffset body s =
     (let s1 = s\<lparr>roomPostQueryParams :=
                   fold hiddenInputCallback (hiddenInputs body) (roomPostQueryParams s)\<rparr>;
          s2 = weekCallback weekOffset (selectedWeek body) s1
      in ForEach (roomOptions body) (roomOptionCallback roomRegexp onError) s2)"

section \<open>Notions of the statements and inputs of the scenarios\<close>

text \<open>
  The grid of the scenario: a Monday marker, a free row, a subject row, a free row.
\<close>

definition mondayGrid :: "timetableRowElement list" where
  "mondayGrid =
     [\<lparr>dayName = ''Monday'', subject = [], time = []\<rparr>,
      \<lparr>dayName = [], subject = [], time = ''09:15''\<rparr>,
      \<lparr>dayName = [], subject = ''Maths'', time = ''10:15''\<rparr>,
      \<lparr>dayName = [], subject = [], time = ''11:15''\<rparr>]"

text \<open>
  Two documents with a row before the first day marker: a free row, a subject row.
\<close>

definition sentinelPage :: tableContainerElement where
  "sentinelPage =
     \<lparr>headers = [\<lparr>date = ''Date: 01/02/2024'', room = ''Room : IT101'', week = ''Week : 34''\<rparr>],
      timetables = [[\<lparr>dayName = [], subject = [], time = ''09:15''\<rparr>,
                     \<lparr>dayName = ''Monday'', subject = [], time = []\<rparr>,
                     \<lparr>dayName = [], subject = [], time = ''10:15''\<rparr>]]\<rparr>"

definition subjectFirstPage :: tableContainerElement where
  "subjectFirstPage =
     \<lparr>headers = [\<lparr>date = ''Date: 01/02/2024'', room = ''Room : IT101'', week = ''Week : 34''\<rparr>],
      timetables = [[\<lparr>dayName = [], subject = ''Maths'', time = ''09:15''\<rparr>,
                     \<lparr>dayName = ''Monday'', subject = [], time = []\<rparr>,
                     \<lparr>dayName = [], subject = [], time = ''10:15''\<rparr>]]\<rparr>"

text \<open>
  Two documents that make the parser panic: a date cell of one piece, and a free row after
  six day markers.
\<close>

definition shortDatePage :: tableContainerElement where
  "shortDatePage =
     \<lparr>headers = [\<lparr>date = ''01/02/2024'', room = ''Room : IT101'', week = ''Week : 34''\<rparr>],
      timetables = []\<rparr>"

definition sixDaysPage :: tableContainerElement where
  "sixDaysPage =
     \<lparr>headers = [],
      timetables = [replicate 6 \<lparr>dayName = ''Monday'', subject = [], time = []\<rparr> @
                     [\<lparr>dayName = [], subject = [], time = ''09:15''\<rparr>]]\<rparr>"

text \<open>
  A header with some of its three cells rendered empty, and a document whose date cell is
  empty.
\<close>

definition blankCells :: "bool \<Rightarrow> bool \<Rightarrow> bool \<Rightarrow> headerElement \<Rightarrow> headerElement" where
  "blankCells ed er ew h =
     h\<lparr>date := (if ed then [] else date h),
       room := (if er then [] else room h),
       week := (if ew then [] else week h)\<rparr>"

definition emptyDatePage :: tableContainerElement where
  "emptyDatePage =
     \<lparr>headers = [\<lparr>date = [], room = ''Room : IT101'', week = ''Week : 34''\<rparr>],
      timetables = [mondayGrid]\<rparr>"

text \<open>
  A loop body that only appends to the table: what it does to any table is to merge in what
  it does to the empty one.
\<close>

definition appends :: "(summary \<Rightarrow> summary) \<Rightarrow> bool" where
  "appends F =
     (\<forall>a. freeRoomTable (F a) = mergeTables (freeRoomTable a) (freeRoomTable (F newSummary)))"

text \<open>What one record adds to the bucket of a day and a time.\<close>

definition contribution :: "string \<Rightarrow> string \<Rightarrow> Timetable \<Rightarrow> string list" where
  "contribution day tm timetable =
     (if day \<in> set days then replicate (count_list (lookup (FreeTimes timetable) day) tm) (Room timetable)
      else [])"

text \<open>
  Records and a document for the scenarios of the aggregate table: a room free on Monday at
  09:15, and a grid that lists the same free time twice.
\<close>

definition mondayFree :: "string \<Rightarrow> Timetable" where
  "mondayFree rm =
     \<lparr>Error = False, Empty = False, Date = [], Room = rm, Week = [],
      FreeTimes = [''Monday'' \<mapsto> [''09:15'']]\<rparr>"

definition repeatedTimePage :: tableContainerElement where
  "repeatedTimePage =
     \<lparr>headers = [\<lparr>date = ''Date: 01/02/2024'', room = ''Room : IT101'', week = ''Week : 34''\<rparr>],
      timetables = [[\<lparr>dayName = ''Monday'', subject = [], time = []\<rparr>,
                     \<lparr>dayName = [], subject = [], time = ''09:15''\<rparr>,
                     \<lparr>dayName = [], subject = [], time = ''09:15''\<rparr>]]\<rparr>"

definition repeatedTime :: Timetable where
  "repeatedTime =
     \<lparr>Error = False, Empty = True, Date = ''01/02/2024'', Room = ''IT101'', Week = ''34'',
      FreeTimes = [''Monday'' \<mapsto> [''09:15'', ''09:15'']]\<rparr>"

text \<open>
  The week code \<open>v\<close> is the one value of \<^verbatim>\<open>CboWeeks\<close> in
  the form parameters and in every request posted so far.
\<close>

definition weeksIs :: "string \<Rightarrow> state \<Rightarrow> bool" where
  "weeksIs v s =
     (lookup (roomPostQueryParams s) ''CboWeeks'' = [v] \<and>
      list_all (\<lambda>r. lookup r ''CboWeeks'' = [v]) (posted s))"

text \<open>
  Two landing pages with one room, one with a week code that is no integer and one with the
  week code 34.
\<close>

definition unparsedWeekPage :: bodyElement where
  "unparsedWeekPage =
     \<lparr>hiddenInputs = [(''__VIEWSTATE'', ''abc''), (''other'', ''x'')],
      selectedWeek = ''week34'',
      roomOptions = [(''IT101'', Rendered [sentinelPage])]\<rparr>"

definition week34Page :: bodyElement where
  "week34Page =
     \<lparr>hiddenInputs = [(''__VIEWSTATE'', ''abc''), (''other'', ''x'')],
      selectedWeek = ''34'',
      roomOptions = [(''IT101'', Rendered [sentinelPage])]\<rparr>"

text \<open>
  The room patterns as predicates: \<^verbatim>\<open>^IT101$\<close>, the one
  \<^verbatim>\<open>room_scrape.go\<close> compiles, and
  \<^verbatim>\<open>^IT1[0-9]{2}$\<close>, in a comment there and compiled by the variant
  with the webhook upload.
\<close>

definition roomRegexp :: "string \<Rightarrow> bool" where
  "roomRegexp roomName = (roomName = ''IT101'')"

definition roomRegexp_IT1xx :: "string \<Rightarrow> bool" where
  "roomRegexp_IT1xx roomName =
     (length roomName = 5 \<and> take 3 roomName = ''IT1'' \<and> list_all isDigit (drop 3 roomName))"

text \<open>
  The \<^verbatim>\<open>div#divTT\<close> elements of the documents that the answers to the matching room
  options hold: none for a request that fails.
\<close>

definition renderedElements ::
  "(string \<Rightarrow> bool) \<Rightarrow> (string \<times> response) list \<Rightarrow> tableContainerElement list" where
  "renderedElements rx opts =
     concat (map (\<lambda>opt. case opt of (roomName, answer) \<Rightarrow>
                    if rx roomName
                    then (case answer of RequestFailed err \<Rightarrow> [] | Rendered elements \<Rightarrow> elements)
                    else []) opts)"

text \<open>The answers on which the parser does not panic.\<close>

definition pageOk :: "tableContainerElement \<Rightarrow> bool" where
  "pageOk e = (list_all headerOk (headers e) \<and> list_all gridOk (timetables e))"

definition answerOk :: "string \<times> response \<Rightarrow> bool" where
  "answerOk opt =
     (case snd opt of RequestFailed err \<Rightarrow> True | Rendered elements \<Rightarrow> list_all pageOk elements)"

text \<open>
  The state after the request for a room has failed, in \<^verbatim>\<open>room_scrape.go\<close>: the request
  was posted once, four records were logged, the list of records is as before, and the
  connection is lost.
\<close>

definition afterFailure :: "string \<Rightarrow> requestError \<Rightarrow> state \<Rightarrow> state" where
  "afterFailure roomName err s =
     s\<lparr>roomPostQueryParams := Values_Set (roomPostQueryParams s) ''CboLocation'' roomName,
       posted := posted s @ [Values_Set (roomPostQueryParams s) ''CboLocation'' roomName],
       errorLog := errorLog s @
         [ErrorText err, Message ''Requesting room failed'',
          ErrorText err, Message ''Room POST request failed''],
       idleConn := False\<rparr>"

text \<open>
  Two room options: the request of the first times out, the second gets a document.
\<close>

definition twoRooms :: "(string \<times> response) list" where
  "twoRooms = [(''IT101'', RequestFailed ''timeout''), (''IT102'', Rendered [sentinelPage])]"

section \<open>Facts about the primitives\<close>

lemma ForEach_append:
  "ForEach (xs @ ys) f s = (case ForEach xs f s of Inl err \<Rightarrow> Inl err | Inr s' \<Rightarrow> ForEach ys f s')"
  by (induction xs arbitrary: s) (auto split: sum.splits)

lemma ForEach_invariant:
  assumes "ForEach xs f s = Inr s'" and "P s"
    and "\<And>x a b. x \<in> set xs \<Longrightarrow> P a \<Longrightarrow> f x a = Inr b \<Longrightarrow> P b"
  shows "P s'"
  using assms
proof (induction xs arbitrary: s)
  case Nil
  then show ?case by simp
next
  case (Cons x xs)
  from Cons.prems(1) obtain m where m: "f x s = Inr m" and rest: "ForEach xs f m = Inr s'"
    by (auto split: sum.splits)
  have "P m" using Cons.prems(2,3) m by auto
  with rest Cons.IH Cons.prems(3) show ?case by auto
qed

lemma ForEach_total:
  assumes "P s"
    and "\<And>x a. x \<in> set xs \<Longrightarrow> P a \<Longrightarrow> \<exists>b. f x a = Inr b \<and> P b"
  shows "\<exists>s'. ForEach xs f s = Inr s' \<and> P s'"
  using assms
proof (induction xs arbitrary: s)
  case Nil
  then show ?case by simp
next
  case (Cons x xs)
  from Cons.prems obtain m where m: "f x s = Inr m" "P m"
    by (meson list.set_intros(1))
  with Cons.IH [of m] Cons.prems(2) show ?case by auto
qed

lemma ForEach_fails:
  assumes "x \<in> set xs" and "\<And>a. \<exists>err. f x a = Inl err"
  shows "\<exists>err. ForEach xs f s = Inl err"
  using assms(1)
proof (induction xs arbitrary: s)
  case Nil
  then show ?case by simp
next
  case (Cons y ys)
  show ?case
  proof (cases "f y s")
    case (Inl err)
    then show ?thesis by simp
  next
    case (Inr m)
    show ?thesis
    proof (cases "x = y")
      case True
      with assms(2) [of s] Inr show ?thesis by simp
    next
      case False
      with Cons.prems have "x \<in> set ys" by simp
      from Cons.IH [OF this, of m] Inr show ?thesis by simp
    qed
  qed
qed

lemma error_only: "(err :: error) = IndexOutOfRange"
  by (cases err) simp

lemma not_Inr_iff: "(\<forall>t. (r :: error + 'a) \<noteq> Inr t) \<longleftrightarrow> r = Inl IndexOutOfRange"
  by (cases r) (auto simp: error_only)

lemma index_days_mem: "index days i = Inr d \<Longrightarrow> d \<in> set days"
  by (auto simp: index_def split: if_splits)

lemma index_days_cases:
  "index days i = Inr d \<Longrightarrow>
     (i = 0 \<and> d = ''Monday'') \<or> (i = 1 \<and> d = ''Tuesday'') \<or> (i = 2 \<and> d = ''Wednesday'') \<or>
     (i = 3 \<and> d = ''Thursday'') \<or> (i = 4 \<and> d = ''Friday'')"
proof -
  assume a: "index days i = Inr d"
  then have r: "0 \<le> i" "i < 5" and d: "d = days ! nat i"
    by (auto simp: index_def days_def split: if_splits)
  from r have "i = 0 \<or> i = 1 \<or> i = 2 \<or> i = 3 \<or> i = 4" by arith
  then show ?thesis using d by (auto simp: days_def)
qed

lemma index_days_Inr: "0 \<le> i \<Longrightarrow> i < 5 \<Longrightarrow> \<exists>d. index days i = Inr d"
  by (simp add: index_def days_def)

lemma index_days_Inl: "5 \<le> i \<Longrightarrow> index days i = Inl IndexOutOfRange"
  by (simp add: index_def days_def)

section \<open>The row callback by kind of row\<close>

lemma row_kinds: "isDayMarker r \<or> isSubject r \<or> isFree r"
  by (auto simp: isSubject_def isFree_def)

lemma rowCallback_marker:
  "isDayMarker r \<Longrightarrow> rowCallback r (c, t) = Inr (c + 1, t)"
  by (simp add: rowCallback_def isDayMarker_def)

lemma rowCallback_subject:
  "isSubject r \<Longrightarrow> rowCallback r (c, t) = Inr (c, t\<lparr>Empty := False\<rparr>)"
  by (simp add: rowCallback_def isSubject_def isDayMarker_def)

lemma rowCallback_free_sentinel:
  "isFree r \<Longrightarrow> rowCallback r (- 1, t) = Inr (- 1, t\<lparr>Error := True\<rparr>)"
  by (simp add: rowCallback_def isFree_def isDayMarker_def)

lemma rowCallback_free:
  "isFree r \<Longrightarrow> c \<noteq> - 1 \<Longrightarrow>
   rowCallback r (c, t) =
     (case index days c of Inl err \<Rightarrow> Inl err
      | Inr day \<Rightarrow> Inr (c, t\<lparr>FreeTimes := (FreeTimes t)(day \<mapsto> lookup (FreeTimes t) day @ [time r])\<rparr>))"
  by (simp add: rowCallback_def isFree_def isDayMarker_def)

section \<open>Counting free slots\<close>

lemma freeSlotCount_append:
  assumes "index days i = Inr d"
  shows "freeSlotCount (t\<lparr>FreeTimes := (FreeTimes t)(d \<mapsto> lookup (FreeTimes t) d @ [x])\<rparr>)
           = Suc (freeSlotCount t)"
  using index_days_cases [OF assms]
  by (auto simp: freeSlotCount_def days_def lookup_def)

lemma freeSlotCount_upd [simp]:
  "freeSlotCount (t\<lparr>Error := b\<rparr>) = freeSlotCount t"
  "freeSlotCount (t\<lparr>Empty := b\<rparr>) = freeSlotCount t"
  "freeSlotCount (t\<lparr>Date := x\<rparr>) = freeSlotCount t"
  "freeSlotCount (t\<lparr>Room := x\<rparr>) = freeSlotCount t"
  "freeSlotCount (t\<lparr>Week := x\<rparr>) = freeSlotCount t"
  by (simp_all add: freeSlotCount_def)

lemma scan_in_day_count:
  "ForEach rows rowCallback (c, t) = Inr (c', t') \<Longrightarrow> 0 \<le> c \<Longrightarrow>
     freeSlotCount t' = freeSlotCount t + length (filter isFree rows) \<and> c \<le> c'"
proof (induction rows arbitrary: c t)
  case Nil
  then show ?case by simp
next
  case (Cons r rows)
  consider (m) "isDayMarker r" | (s) "isSubject r" | (f) "isFree r"
    using row_kinds by blast
  then show ?case
  proof cases
    case m
    with Cons.prems have "ForEach rows rowCallback (c + 1, t) = Inr (c', t')"
      by (simp add: rowCallback_marker)
    from Cons.IH [OF this] Cons.prems m show ?thesis
      by (auto simp: isFree_def)
  next
    case s
    with Cons.prems have "ForEach rows rowCallback (c, t\<lparr>Empty := False\<rparr>) = Inr (c', t')"
      by (simp add: rowCallback_subject)
    from Cons.IH [OF this] Cons.prems s show ?thesis
      by (auto simp: isFree_def isSubject_def)
  next
    case f
    from Cons.prems have c: "c \<noteq> - 1" by simp
    from Cons.prems f c obtain d where d: "index days c = Inr d"
      and rest: "ForEach rows rowCallback
          (c, t\<lparr>FreeTimes := (FreeTimes t)(d \<mapsto> lookup (FreeTimes t) d @ [time r])\<rparr>) = Inr (c', t')"
      by (auto simp: rowCallback_free split: sum.splits)
    from Cons.IH [OF rest] Cons.prems f freeSlotCount_append [OF d] show ?thesis
      by simp
  qed
qed

text \<open>
  Before the first day marker: the cursor stays at the sentinel and no slot is recorded.
\<close>

lemma scan_before_marker:
  "\<forall>r\<in>set pre. \<not> isDayMarker r \<Longrightarrow>
   ForEach pre rowCallback (- 1, t) =
     Inr (- 1, t\<lparr>Error := Error t \<or> (\<exists>r\<in>set pre. isFree r),
                 Empty := Empty t \<and> (\<forall>r\<in>set pre. \<not> isSubject r)\<rparr>)"
proof (induction pre arbitrary: t)
  case Nil
  then show ?case by simp
next
  case (Cons r pre)
  then have nm: "\<not> isDayMarker r" and rest: "\<forall>r\<in>set pre. \<not> isDayMarker r"
    by simp_all
  show ?case
  proof (cases "isFree r")
    case True
    then have ns: "\<not> isSubject r" by (simp add: isFree_def isSubject_def)
    show ?thesis
      using True ns Cons.IH [OF rest, of "t\<lparr>Error := True\<rparr>"]
      by (simp add: rowCallback_free_sentinel)
  next
    case False
    with nm have s: "isSubject r" by (simp add: isFree_def isSubject_def)
    show ?thesis
      using False s Cons.IH [OF rest, of "t\<lparr>Empty := False\<rparr>"]
      by (simp add: rowCallback_subject)
  qed
qed

lemma timetableCallback_prefix:
  assumes "\<forall>r\<in>set pre. \<not> isDayMarker r"
  shows "timetableCallback (pre @ rest) t =
     timetableCallback rest
       (t\<lparr>Error := Error t \<or> (\<exists>r\<in>set pre. isFree r),
          Empty := Empty t \<and> (\<forall>r\<in>set pre. \<not> isSubject r)\<rparr>)"
  by (simp add: timetableCallback_def ForEach_append scan_before_marker [OF assms])

lemma timetableCallback_count:
  assumes "timetableCallback rows t = Inr t'"
  shows "freeSlotCount t' = freeSlotCount t + freeRowsAfterMarker rows"
proof -
  let ?pre = "takeWhile (\<lambda>r. \<not> isDayMarker r) rows"
  let ?rest = "dropWhile (\<lambda>r. \<not> isDayMarker r) rows"
  let ?t1 = "t\<lparr>Error := Error t \<or> (\<exists>r\<in>set ?pre. isFree r),
               Empty := Empty t \<and> (\<forall>r\<in>set ?pre. \<not> isSubject r)\<rparr>"
  have pre: "\<forall>r\<in>set ?pre. \<not> isDayMarker r"
    by (auto dest: set_takeWhileD)
  have "timetableCallback (?pre @ ?rest) t = timetableCallback ?rest ?t1"
    by (rule timetableCallback_prefix [OF pre])
  with assms have run: "timetableCallback ?rest ?t1 = Inr t'" by simp
  show ?thesis
  proof (cases ?rest)
    case Nil
    have a: "freeRowsAfterMarker rows = 0"
      unfolding freeRowsAfterMarker_def Nil by simp
    have b: "t' = ?t1"
      using run unfolding Nil by (simp add: timetableCallback_def)
    show ?thesis unfolding a b by simp
  next
    case (Cons m rows')
    then have m: "isDayMarker m"
      by (metis (mono_tags, lifting) dropWhile_eq_Cons_conv)
    from run Cons m obtain c' where "ForEach rows' rowCallback (0, ?t1) = Inr (c', t')"
      by (auto simp: timetableCallback_def rowCallback_marker split: sum.splits)
    from scan_in_day_count [OF this] m Cons show ?thesis
      by (simp add: freeRowsAfterMarker_def isFree_def)
  qed
qed

section \<open>Header callback in closed form\<close>

lemma index_Split:
  "index xs i = (if 0 \<le> i \<and> nat i < length xs then Inr (xs ! nat i) else Inl IndexOutOfRange)"
  by (auto simp: index_def)

lemma headerCallback_eq:
  "headerCallback h t =
     (if headerOk h then
        Inr (t\<lparr>Error := Error t \<or> date h = [] \<or> room h = [] \<or> week h = [],
               Date := (if date h = [] then Date t else Split (date h) CHR '' '' ! 1),
               Room := (if room h = [] then Room t else Split (room h) CHR '' '' ! 2),
               Week := (if week h = [] then Week t else Split (week h) CHR '' '' ! 2)\<rparr>)
      else Inl IndexOutOfRange)"
  by (simp add: headerCallback_def headerDate_def headerRoom_def headerWeek_def headerOk_def
      index_Split)

lemma headerCallback_keeps:
  "headerCallback h t = Inr t' \<Longrightarrow> FreeTimes t' = FreeTimes t \<and> Empty t' = Empty t"
  by (auto simp: headerCallback_eq split: if_splits)

lemma headers_keep:
  "ForEach hs headerCallback t = Inr t' \<Longrightarrow> FreeTimes t' = FreeTimes t \<and> Empty t' = Empty t"
  by (erule ForEach_invariant [where P = "\<lambda>a. FreeTimes a = FreeTimes t \<and> Empty a = Empty t"])
     (auto dest: headerCallback_keeps)

lemma headers_Error_mono:
  "ForEach hs headerCallback t = Inr t' \<Longrightarrow> Error t \<Longrightarrow> Error t'"
  by (erule ForEach_invariant [where P = Error]) (auto simp: headerCallback_eq split: if_splits)

lemma headers_Error:
  "ForEach hs headerCallback t = Inr t' \<Longrightarrow> h \<in> set hs \<Longrightarrow>
   date h = [] \<or> room h = [] \<or> week h = [] \<Longrightarrow> Error t'"
proof (induction hs arbitrary: t)
  case Nil
  then show ?case by simp
next
  case (Cons x hs)
  from Cons.prems(1) obtain m where m: "headerCallback x t = Inr m"
    and rest: "ForEach hs headerCallback m = Inr t'"
    by (auto split: sum.splits)
  show ?case
  proof (cases "h = x")
    case True
    with m Cons.prems(3) have "Error m" by (auto simp: headerCallback_eq split: if_splits)
    with rest show ?thesis by (rule headers_Error_mono)
  next
    case False
    with Cons.prems(2) have "h \<in> set hs" by simp
    with Cons.IH rest Cons.prems(3) show ?thesis by blast
  qed
qed

section \<open>The grid does not read the header fields\<close>

lemma ForEach_map_state:
  assumes "\<And>x a. f x (g a) = (case f x a of Inl err \<Rightarrow> Inl err | Inr b \<Rightarrow> Inr (g b))"
  shows "ForEach xs f (g s) = (case ForEach xs f s of Inl err \<Rightarrow> Inl err | Inr b \<Rightarrow> Inr (g b))"
  by (induction xs arbitrary: s) (auto simp: assms split: sum.splits)

lemma rowCallback_withHeader:
  "rowCallback x (apsnd (withHeader er d r w) a) =
     (case rowCallback x a of Inl err \<Rightarrow> Inl err | Inr b \<Rightarrow> Inr (apsnd (withHeader er d r w) b))"
  by (cases a) (auto simp: rowCallback_def withHeader_def split: sum.splits)

lemma timetableCallback_withHeader:
  "timetableCallback rows (withHeader er d r w t) =
     (case timetableCallback rows t of Inl err \<Rightarrow> Inl err | Inr b \<Rightarrow> Inr (withHeader er d r w b))"
proof -
  have "ForEach rows rowCallback (apsnd (withHeader er d r w) (- 1, t)) =
      (case ForEach rows rowCallback (- 1, t) of Inl err \<Rightarrow> Inl err
       | Inr b \<Rightarrow> Inr (apsnd (withHeader er d r w) b))"
    by (rule ForEach_map_state) (rule rowCallback_withHeader)
  then show ?thesis
    by (simp add: timetableCallback_def split: sum.splits)
qed

lemma timetables_withHeader:
  "ForEach gs timetableCallback (withHeader er d r w t) =
     (case ForEach gs timetableCallback t of Inl err \<Rightarrow> Inl err
      | Inr b \<Rightarrow> Inr (withHeader er d r w b))"
  by (rule ForEach_map_state) (rule timetableCallback_withHeader)

lemma headers_result:
  assumes "ForEach hs headerCallback newTimetable = Inr th"
  shows "th = withHeader (Error th) (Date th) (Room th) (Week th) newTimetable"
proof -
  from headers_keep [OF assms] have "FreeTimes th = Map.empty" "Empty th = True"
    by (simp_all add: newTimetable_def)
  then show ?thesis
    by (simp add: withHeader_def newTimetable_def)
qed

text \<open>A parse is the header pass and the grid pass, each from the fresh record.\<close>

lemma parse_split:
  "parse e =
     (case ForEach (headers e) headerCallback newTimetable of
        Inl err \<Rightarrow> Inl err
      | Inr th \<Rightarrow>
          (case ForEach (timetables e) timetableCallback newTimetable of
             Inl err \<Rightarrow> Inl err
           | Inr g \<Rightarrow> Inr (withHeader (Error th) (Date th) (Room th) (Week th) g)))"
proof (cases "ForEach (headers e) headerCallback newTimetable")
  case (Inl err)
  then show ?thesis by (simp add: parse_def)
next
  case (Inr th)
  have "ForEach (timetables e) timetableCallback th =
      ForEach (timetables e) timetableCallback
        (withHeader (Error th) (Date th) (Room th) (Week th) newTimetable)"
    using headers_result [OF Inr] by simp
  then show ?thesis
    using Inr by (simp add: parse_def timetables_withHeader)
qed

section \<open>Free slots and free rows\<close>

lemma timetables_count:
  "ForEach gs timetableCallback t = Inr t' \<Longrightarrow>
   freeSlotCount t' = freeSlotCount t + sum_list (map freeRowsAfterMarker gs)"
proof (induction gs arbitrary: t)
  case Nil
  then show ?case by simp
next
  case (Cons g gs)
  from Cons.prems obtain m where m: "timetableCallback g t = Inr m"
    and rest: "ForEach gs timetableCallback m = Inr t'"
    by (auto split: sum.splits)
  from timetableCallback_count [OF m] Cons.IH [OF rest] show ?case by simp
qed

lemma parse_count:
  assumes "parse e = Inr t"
  shows "freeSlotCount t = sum_list (map freeRowsAfterMarker (timetables e))"
proof -
  from assms obtain th where th: "ForEach (headers e) headerCallback newTimetable = Inr th"
    and g: "ForEach (timetables e) timetableCallback th = Inr t"
    by (auto simp: parse_def split: sum.splits)
  from headers_keep [OF th] have "freeSlotCount th = 0"
    by (simp add: freeSlotCount_def newTimetable_def lookup_def)
  with timetables_count [OF g] show ?thesis by simp
qed

lemma mondayGrid_run:
  "ForEach [mondayGrid] timetableCallback newTimetable =
     Inr (newTimetable\<lparr>Empty := False, FreeTimes := [''Monday'' \<mapsto> [''09:15'', ''11:15'']]\<rparr>)"
  by (simp add: mondayGrid_def timetableCallback_def rowCallback_def days_def index_def
      lookup_def newTimetable_def)

text \<open>
  Claim C2. Whenever the parser returns a record, the number of its free-slot entries over
  the five days is the number of free rows (day label not a weekday name, subject cell
  empty) that come after the first day-marker row of their grid, summed over the grids of
  the document. In the scenario with the rows Monday marker, 09:15 free, 10:15 subject,
  11:15 free, the record is not empty and its free slots are Monday: 09:15, 11:15.
\<close>

theorem free_slots_are_free_rows:
  "(parse e = Inr t \<longrightarrow>
      freeSlotCount t = sum_list (map freeRowsAfterMarker (timetables e))) \<and>
   (timetables e = [mondayGrid] \<and> parse e = Inr t \<longrightarrow>
      Empty t = False \<and> FreeTimes t = [''Monday'' \<mapsto> [''09:15'', ''11:15'']])"
proof -
  have general: "parse e = Inr t \<longrightarrow>
      freeSlotCount t = sum_list (map freeRowsAfterMarker (timetables e))"
    using parse_count by blast
  have scenario: "timetables e = [mondayGrid] \<and> parse e = Inr t \<longrightarrow>
      Empty t = False \<and> FreeTimes t = [''Monday'' \<mapsto> [''09:15'', ''11:15'']]"
  proof
    assume a: "timetables e = [mondayGrid] \<and> parse e = Inr t"
    then have g: "ForEach (timetables e) timetableCallback newTimetable =
        Inr (newTimetable\<lparr>Empty := False, FreeTimes := [''Monday'' \<mapsto> [''09:15'', ''11:15'']]\<rparr>)"
      by (simp only: mondayGrid_run)
    from a have "parse e = Inr t" ..
    then show "Empty t = False \<and> FreeTimes t = [''Monday'' \<mapsto> [''09:15'', ''11:15'']]"
      unfolding parse_split g by (auto simp: withHeader_def split: sum.splits)
  qed
  from general scenario show ?thesis ..
qed

theorem free_slots_are_free_rows_witness:
  "parse \<lparr>headers = [\<lparr>date = ''Date: 01/02/2024'', room = ''Room : IT101'', week = ''Week : 34''\<rparr>],
          timetables = [mondayGrid]\<rparr> =
     Inr \<lparr>Error = False, Empty = False, Date = ''01/02/2024'', Room = ''IT101'', Week = ''34'',
          FreeTimes = [''Monday'' \<mapsto> [''09:15'', ''11:15'']]\<rparr> \<and>
   freeSlotCount \<lparr>Error = False, Empty = False, Date = ''01/02/2024'', Room = ''IT101'',
          Week = ''34'', FreeTimes = [''Monday'' \<mapsto> [''09:15'', ''11:15'']]\<rparr> = 2 \<and>
   sum_list (map freeRowsAfterMarker [mondayGrid]) = 2"
proof -
  let ?e = "\<lparr>headers = [\<lparr>date = ''Date: 01/02/2024'', room = ''Room : IT101'', week = ''Week : 34''\<rparr>],
          timetables = [mondayGrid]\<rparr>"
  let ?t = "\<lparr>Error = False, Empty = False, Date = ''01/02/2024'', Room = ''IT101'', Week = ''34'',
          FreeTimes = [''Monday'' \<mapsto> [''09:15'', ''11:15'']]\<rparr>"
  have h: "ForEach (headers ?e) headerCallback newTimetable =
      Inr (newTimetable\<lparr>Date := ''01/02/2024'', Room := ''IT101'', Week := ''34''\<rparr>)"
    by (simp add: headerCallback_eq headerOk_def newTimetable_def)
  have g: "ForEach (timetables ?e) timetableCallback newTimetable =
      Inr (newTimetable\<lparr>Empty := False, FreeTimes := [''Monday'' \<mapsto> [''09:15'', ''11:15'']]\<rparr>)"
    by (simp only: mondayGrid_run tableContainerElement.simps)
  have p: "parse ?e = Inr ?t"
    unfolding parse_split h g by (simp add: withHeader_def newTimetable_def)
  from free_slots_are_free_rows [of ?e ?t] p
  have c: "freeSlotCount ?t = sum_list (map freeRowsAfterMarker (timetables ?e))"
    by blast
  have f: "sum_list (map freeRowsAfterMarker [mondayGrid]) = 2"
    by (simp add: freeRowsAfterMarker_def mondayGrid_def isFree_def isDayMarker_def days_def)
  have "timetables ?e = [mondayGrid]" by simp
  with free_slots_are_free_rows [of ?e ?t] p
  have "Empty ?t = False \<and> FreeTimes ?t = [''Monday'' \<mapsto> [''09:15'', ''11:15'']]"
    by blast
  with p c f show ?thesis by simp
qed

section \<open>The error flag is never cleared\<close>

lemma ForEach_establish:
  assumes "ForEach xs f s = Inr s'" and "x \<in> set xs"
    and "\<And>a b. f x a = Inr b \<Longrightarrow> P b"
    and "\<And>y a b. y \<in> set xs \<Longrightarrow> P a \<Longrightarrow> f y a = Inr b \<Longrightarrow> P b"
  shows "P s'"
  using assms(1,2,4)
proof (induction xs arbitrary: s)
  case Nil
  then show ?case by simp
next
  case (Cons y ys)
  from Cons.prems(1) obtain m where m: "f y s = Inr m" and rest: "ForEach ys f m = Inr s'"
    by (auto split: sum.splits)
  show ?case
  proof (cases "x = y")
    case True
    with m assms(3) have "P m" by blast
    with rest show ?thesis
      by (rule ForEach_invariant) (use Cons.prems(3) in auto)
  next
    case False
    with Cons.prems(2) have "x \<in> set ys" by simp
    with Cons.IH [OF rest] Cons.prems(3) show ?thesis by auto
  qed
qed

lemma rowCallback_Error_mono:
  "rowCallback r (c, t) = Inr (c', t') \<Longrightarrow> Error t \<Longrightarrow> Error t'"
  by (auto simp: rowCallback_def split: if_splits sum.splits)

lemma timetableCallback_Error_mono:
  assumes "timetableCallback rows t = Inr t'" and "Error t"
  shows "Error t'"
proof -
  from assms(1) obtain c' where run: "ForEach rows rowCallback (- 1, t) = Inr (c', t')"
    by (auto simp: timetableCallback_def split: sum.splits)
  have "Error (snd (c', t'))"
    by (rule ForEach_invariant [OF run, where P = "\<lambda>a. Error (snd a)"])
       (use assms(2) in \<open>auto dest: rowCallback_Error_mono\<close>)
  then show ?thesis by simp
qed

lemma sentinel_sets_Error:
  assumes "\<forall>r\<in>set pre. \<not> isDayMarker r" and "\<exists>r\<in>set pre. isFree r"
    and "timetableCallback (pre @ rest) a = Inr b"
  shows "Error b"
proof -
  from assms(3) have "timetableCallback rest
       (a\<lparr>Error := Error a \<or> (\<exists>r\<in>set pre. isFree r),
          Empty := Empty a \<and> (\<forall>r\<in>set pre. \<not> isSubject r)\<rparr>) = Inr b"
    by (simp add: timetableCallback_prefix [OF assms(1)])
  then show ?thesis
    by (rule timetableCallback_Error_mono) (use assms(2) in simp)
qed

lemma parse_sentinel_Error:
  assumes "parse e = Inr t" and "pre @ rest \<in> set (timetables e)"
    and "\<forall>r\<in>set pre. \<not> isDayMarker r" and "\<exists>r\<in>set pre. isFree r"
  shows "Error t"
proof -
  from assms(1) obtain th where "ForEach (timetables e) timetableCallback th = Inr t"
    by (auto simp: parse_def split: sum.splits)
  then show ?thesis
    using assms(2)
  proof (rule ForEach_establish)
    show "Error b" if "timetableCallback (pre @ rest) a = Inr b" for a b
      using assms(3,4) that by (rule sentinel_sets_Error)
    show "Error b" if "Error a" "timetableCallback y a = Inr b" for y a b
      using that(2,1) by (rule timetableCallback_Error_mono)
  qed
qed

text \<open>The equations that evaluate a parse on a concrete document.\<close>

lemmas run_simps =
  parse_def headerCallback_eq headerOk_def timetableCallback_def rowCallback_def days_def
  index_def lookup_def newTimetable_def

text \<open>
  Claim C1 as stated fails for a subject row: a subject row met while the day cursor is
  still -1 returns before the test of the cursor, so it clears \<open>Empty\<close> and leaves
  \<open>Error\<close> alone. The document below starts its grid with a subject row and parses with
  \<open>Error = False\<close>.
\<close>

theorem sentinel_subject_row_counterexample:
  "isSubject \<lparr>dayName = [], subject = ''Maths'', time = ''09:15''\<rparr> \<and>
   parse subjectFirstPage =
     Inr \<lparr>Error = False, Empty = False, Date = ''01/02/2024'', Room = ''IT101'', Week = ''34'',
          FreeTimes = [''Monday'' \<mapsto> [''10:15'']]\<rparr>"
  by (simp add: subjectFirstPage_def isSubject_def isDayMarker_def run_simps)

text \<open>
  Claim C1, amended. Rows met before any day-marker row leave the day cursor at -1 and
  record no free slot; the scan goes on with the rows that follow, from a record whose
  \<open>Error\<close> flag is raised exactly when one of those rows was a free row (day label not a
  weekday name, subject cell empty) and whose \<open>Empty\<close> flag is cleared exactly when one
  of them was a subject row. So a document that parses and has a free row before the
  first day marker of one of its grids has \<open>Error = True\<close>.
\<close>

theorem sentinel_free_row:
  assumes "\<forall>r\<in>set pre. \<not> isDayMarker r"
  shows "ForEach (pre @ rest) rowCallback (- 1, t) =
           ForEach rest rowCallback
             (- 1, t\<lparr>Error := Error t \<or> (\<exists>r\<in>set pre. isFree r),
                     Empty := Empty t \<and> (\<forall>r\<in>set pre. \<not> isSubject r)\<rparr>) \<and>
         (parse e = Inr t' \<and> pre @ rest \<in> set (timetables e) \<and> (\<exists>r\<in>set pre. isFree r)
            \<longrightarrow> Error t')"
proof
  show "ForEach (pre @ rest) rowCallback (- 1, t) =
           ForEach rest rowCallback
             (- 1, t\<lparr>Error := Error t \<or> (\<exists>r\<in>set pre. isFree r),
                     Empty := Empty t \<and> (\<forall>r\<in>set pre. \<not> isSubject r)\<rparr>)"
    by (simp add: ForEach_append scan_before_marker [OF assms])
  show "parse e = Inr t' \<and> pre @ rest \<in> set (timetables e) \<and> (\<exists>r\<in>set pre. isFree r)
            \<longrightarrow> Error t'"
    using assms parse_sentinel_Error by blast
qed

theorem sentinel_free_row_witness:
  "parse sentinelPage =
     Inr \<lparr>Error = True, Empty = True, Date = ''01/02/2024'', Room = ''IT101'', Week = ''34'',
          FreeTimes = [''Monday'' \<mapsto> [''10:15'']]\<rparr> \<and>
   Error \<lparr>Error = True, Empty = True, Date = ''01/02/2024'', Room = ''IT101'', Week = ''34'',
          FreeTimes = [''Monday'' \<mapsto> [''10:15'']]\<rparr>"
proof -
  let ?free = "\<lparr>dayName = [], subject = [], time = ''09:15''\<rparr>"
  let ?rest = "[\<lparr>dayName = ''Monday'', subject = [], time = []\<rparr>,
                \<lparr>dayName = [], subject = [], time = ''10:15''\<rparr>]"
  let ?t = "\<lparr>Error = True, Empty = True, Date = ''01/02/2024'', Room = ''IT101'', Week = ''34'',
          FreeTimes = [''Monday'' \<mapsto> [''10:15'']]\<rparr>"
  have pre: "\<forall>r\<in>set [?free]. \<not> isDayMarker r"
    by (simp add: isDayMarker_def days_def)
  have free: "\<exists>r\<in>set [?free]. isFree r"
    by (simp add: isFree_def isDayMarker_def days_def)
  have p: "parse sentinelPage = Inr ?t"
    by (simp add: sentinelPage_def run_simps)
  have g: "[?free] @ ?rest \<in> set (timetables sentinelPage)"
    by (simp add: sentinelPage_def)
  from sentinel_free_row [OF pre, of ?rest _ sentinelPage ?t] p g free
  have "Error ?t" by blast
  with p show ?thesis by blast
qed

section \<open>Where the parser panics\<close>

lemma scan_cursor:
  "ForEach rows rowCallback (c, t) = Inr (c', t') \<Longrightarrow>
   c' = c + int (length (filter isDayMarker rows))"
proof (induction rows arbitrary: c t)
  case Nil
  then show ?case by simp
next
  case (Cons r rows)
  from Cons.prems obtain m tm where m: "rowCallback r (c, t) = Inr (m, tm)"
    and rest: "ForEach rows rowCallback (m, tm) = Inr (c', t')"
    by (auto split: sum.splits)
  from m have "m = (if isDayMarker r then c + 1 else c)"
    by (auto simp: rowCallback_def isDayMarker_def split: if_splits sum.splits)
  with Cons.IH [OF rest] show ?case by simp
qed

lemma scan_total:
  "- 1 \<le> c \<Longrightarrow> c + int (length (filter isDayMarker rows)) \<le> 4 \<Longrightarrow>
   \<exists>s. ForEach rows rowCallback (c, t) = Inr s"
proof (induction rows arbitrary: c t)
  case Nil
  then show ?case by simp
next
  case (Cons r rows)
  consider (m) "isDayMarker r" | (s) "isSubject r" | (f) "isFree r"
    using row_kinds by blast
  then show ?case
  proof cases
    case m
    with Cons.prems Cons.IH [of "c + 1" t] show ?thesis
      by (simp add: rowCallback_marker)
  next
    case s
    then have "\<not> isDayMarker r" by (simp add: isSubject_def)
    with s Cons.prems Cons.IH [of c "t\<lparr>Empty := False\<rparr>"] show ?thesis
      by (simp add: rowCallback_subject)
  next
    case f
    then have nm: "\<not> isDayMarker r" by (simp add: isFree_def)
    show ?thesis
    proof (cases "c = - 1")
      case True
      with f nm Cons.prems Cons.IH [of "- 1" "t\<lparr>Error := True\<rparr>"] show ?thesis
        by (simp add: rowCallback_free_sentinel)
    next
      case False
      with Cons.prems have "0 \<le> c" "c < 5" by simp_all
      then obtain d where d: "index days c = Inr d"
        using index_days_Inr by blast
      with f nm False Cons.prems
        Cons.IH [of c "t\<lparr>FreeTimes := (FreeTimes t)(d \<mapsto> lookup (FreeTimes t) d @ [time r])\<rparr>"]
      show ?thesis
        by (simp add: rowCallback_free)
    qed
  qed
qed

lemma timetableCallback_total:
  "gridOk rows \<Longrightarrow> \<exists>t'. timetableCallback rows t = Inr t'"
  using scan_total [of "- 1" rows t]
  by (auto simp: gridOk_def timetableCallback_def)

lemma timetableCallback_panics:
  assumes "isFree r" and "5 < length (filter isDayMarker pre)"
  shows "timetableCallback (pre @ r # rest) t = Inl IndexOutOfRange"
proof (cases "ForEach pre rowCallback (- 1, t)")
  case (Inl err)
  then show ?thesis
    by (simp add: timetableCallback_def ForEach_append error_only [of err])
next
  case (Inr s)
  obtain c' t' where s: "s = (c', t')" by (cases s)
  from scan_cursor [OF Inr [unfolded s]] assms(2) have c: "5 \<le> c'" by simp
  then have "rowCallback r (c', t') = Inl IndexOutOfRange"
    using assms(1) by (simp add: rowCallback_free index_days_Inl)
  with Inr s show ?thesis
    by (simp add: timetableCallback_def ForEach_append)
qed

lemma parse_total:
  assumes "\<forall>h\<in>set (headers e). headerOk h" and "\<forall>g\<in>set (timetables e). gridOk g"
  shows "\<exists>t. parse e = Inr t"
proof -
  have "\<exists>th. ForEach (headers e) headerCallback newTimetable = Inr th \<and> True"
    by (rule ForEach_total) (use assms(1) in \<open>auto simp: headerCallback_eq\<close>)
  then obtain th where th: "ForEach (headers e) headerCallback newTimetable = Inr th"
    by blast
  have "\<exists>t. ForEach (timetables e) timetableCallback th = Inr t \<and> True"
    by (rule ForEach_total) (use assms(2) timetableCallback_total in auto)
  with th show ?thesis by (auto simp: parse_def)
qed

lemma parse_header_panics:
  assumes "h \<in> set (headers e)" and "\<not> headerOk h"
  shows "parse e = Inl IndexOutOfRange"
proof -
  have "\<exists>err. ForEach (headers e) headerCallback newTimetable = Inl err"
    using assms(1) by (rule ForEach_fails) (use assms(2) in \<open>simp add: headerCallback_eq\<close>)
  then show ?thesis
    by (auto simp: parse_def error_only)
qed

lemma parse_grid_panics:
  assumes "pre @ r # rest \<in> set (timetables e)" and "isFree r"
    and "5 < length (filter isDayMarker pre)"
  shows "parse e = Inl IndexOutOfRange"
proof (cases "ForEach (headers e) headerCallback newTimetable")
  case (Inl err)
  then show ?thesis by (simp add: parse_def error_only [of err])
next
  case (Inr th)
  have "\<exists>err. ForEach (timetables e) timetableCallback th = Inl err"
    using assms(1)
    by (rule ForEach_fails) (use assms(2,3) timetableCallback_panics in blast)
  with Inr show ?thesis
    by (auto simp: parse_def error_only)
qed

text \<open>
  Claim C10. The parser returns a record whenever every header has, in each non-empty
  cell, a piece at the index read (index 1 of the date, index 2 of the room and of the
  week, after splitting at spaces) and every grid has at most five day-marker rows. It
  panics with an index out of range when some header has a non-empty date cell of fewer
  than two pieces or a non-empty room or week cell of fewer than three, and when some
  grid has a free row after more than five day-marker rows.
\<close>

theorem parser_indexing_preconditions:
  "((\<forall>h\<in>set (headers e). headerOk h) \<and> (\<forall>g\<in>set (timetables e). gridOk g)
      \<longrightarrow> (\<exists>t. parse e = Inr t)) \<and>
   (h \<in> set (headers e) \<and> \<not> headerOk h \<longrightarrow> parse e = Inl IndexOutOfRange) \<and>
   (pre @ r # rest \<in> set (timetables e) \<and> isFree r \<and> 5 < length (filter isDayMarker pre)
      \<longrightarrow> parse e = Inl IndexOutOfRange)"
  using parse_total parse_header_panics parse_grid_panics by blast

theorem parser_indexing_preconditions_witness:
  "parse sentinelPage \<noteq> Inl IndexOutOfRange \<and>
   parse shortDatePage = Inl IndexOutOfRange \<and>
   parse sixDaysPage = Inl IndexOutOfRange"
proof -
  let ?h = "\<lparr>date = ''01/02/2024'', room = ''Room : IT101'', week = ''Week : 34''\<rparr>"
  let ?m = "\<lparr>dayName = ''Monday'', subject = [], time = []\<rparr>"
  let ?f = "\<lparr>dayName = [], subject = [], time = ''09:15''\<rparr>"
  have ok: "(\<forall>h\<in>set (headers sentinelPage). headerOk h) \<and>
      (\<forall>g\<in>set (timetables sentinelPage). gridOk g)"
    by (simp add: sentinelPage_def headerOk_def gridOk_def isDayMarker_def days_def)
  from parser_indexing_preconditions [of sentinelPage] ok
  have 1: "\<exists>t. parse sentinelPage = Inr t" by blast
  have bad: "?h \<in> set (headers shortDatePage) \<and> \<not> headerOk ?h"
    by (simp add: shortDatePage_def headerOk_def)
  from parser_indexing_preconditions [of shortDatePage ?h] bad
  have 2: "parse shortDatePage = Inl IndexOutOfRange" by blast
  have six: "replicate 6 ?m @ ?f # [] \<in> set (timetables sixDaysPage) \<and> isFree ?f \<and>
      5 < length (filter isDayMarker (replicate 6 ?m))"
    by (simp add: sixDaysPage_def isFree_def isDayMarker_def days_def)
  from parser_indexing_preconditions [of sixDaysPage _ "replicate 6 ?m" ?f "[]"] six
  have 3: "parse sixDaysPage = Inl IndexOutOfRange" by blast
  from 1 2 3 show ?thesis by auto
qed

section \<open>Day keys of a parsed record\<close>

lemma rowCallback_days:
  assumes "rowCallback r (c, t) = Inr (c', t')" and "dom (FreeTimes t) \<subseteq> set days"
  shows "dom (FreeTimes t') \<subseteq> set days"
proof -
  from assms(1) consider (same) "FreeTimes t' = FreeTimes t"
    | (slot) day where "index days c = Inr day"
        "FreeTimes t' = (FreeTimes t)(day \<mapsto> lookup (FreeTimes t) day @ [time r])"
    by (auto simp: rowCallback_def split: if_splits sum.splits)
  then show ?thesis
  proof cases
    case same
    with assms(2) show ?thesis by simp
  next
    case slot
    from slot(1) have "day \<in> set days" by (rule index_days_mem)
    with slot(2) assms(2) show ?thesis by simp
  qed
qed

lemma timetableCallback_days:
  assumes "timetableCallback rows t = Inr t'" and "dom (FreeTimes t) \<subseteq> set days"
  shows "dom (FreeTimes t') \<subseteq> set days"
proof -
  from assms(1) obtain c' where run: "ForEach rows rowCallback (- 1, t) = Inr (c', t')"
    by (auto simp: timetableCallback_def split: sum.splits)
  have "dom (FreeTimes (snd (c', t'))) \<subseteq> set days"
  proof (rule ForEach_invariant [OF run, where P = "\<lambda>a. dom (FreeTimes (snd a)) \<subseteq> set days"])
    show "dom (FreeTimes (snd (- 1, t))) \<subseteq> set days"
      using assms(2) by simp
    show "dom (FreeTimes (snd b)) \<subseteq> set days"
      if "dom (FreeTimes (snd a)) \<subseteq> set days" "rowCallback x a = Inr b" for x a b
      using that rowCallback_days [of x "fst a" "snd a" "fst b" "snd b"] by simp
  qed
  then show ?thesis by simp
qed

lemma parse_days:
  assumes "parse e = Inr t"
  shows "dom (FreeTimes t) \<subseteq> set days"
proof -
  from assms obtain th where th: "ForEach (headers e) headerCallback newTimetable = Inr th"
    and g: "ForEach (timetables e) timetableCallback th = Inr t"
    by (auto simp: parse_def split: sum.splits)
  from headers_keep [OF th] have "dom (FreeTimes th) \<subseteq> set days"
    by (simp add: newTimetable_def)
  with g show ?thesis
    by (rule ForEach_invariant) (rule timetableCallback_days)
qed

section \<open>An empty header cell\<close>

lemma headerOk_blankCells: "headerOk h \<Longrightarrow> headerOk (blankCells ed er ew h)"
  by (simp add: headerOk_def blankCells_def)

lemma single_header:
  "ForEach [h] headerCallback newTimetable =
     (if headerOk h then
        Inr (withHeader (date h = [] \<or> room h = [] \<or> week h = [])
               (if date h = [] then [] else Split (date h) CHR '' '' ! 1)
               (if room h = [] then [] else Split (room h) CHR '' '' ! 2)
               (if week h = [] then [] else Split (week h) CHR '' '' ! 2) newTimetable)
      else Inl IndexOutOfRange)"
  by (simp add: headerCallback_eq withHeader_def newTimetable_def)

lemma withHeader_newTimetable [simp]:
  "Error (withHeader er d r w newTimetable) = er"
  "Date (withHeader er d r w newTimetable) = d"
  "Room (withHeader er d r w newTimetable) = r"
  "Week (withHeader er d r w newTimetable) = w"
  by (simp_all add: withHeader_def newTimetable_def)

lemma parse_single_header:
  "parse (e\<lparr>headers := [h]\<rparr>) =
     (if headerOk h then
        (case ForEach (timetables e) timetableCallback newTimetable of
           Inl err \<Rightarrow> Inl err
         | Inr g \<Rightarrow>
             Inr (withHeader (date h = [] \<or> room h = [] \<or> week h = [])
                    (if date h = [] then [] else Split (date h) CHR '' '' ! 1)
                    (if room h = [] then [] else Split (room h) CHR '' '' ! 2)
                    (if week h = [] then [] else Split (week h) CHR '' '' ! 2) g))
      else Inl IndexOutOfRange)"
  unfolding parse_split
  by (simp add: single_header del: ForEach.simps split: sum.splits)

lemma parse_blankCells:
  assumes "parse (e\<lparr>headers := [h]\<rparr>) = Inr t" and "ed \<or> er \<or> ew"
  shows "parse (e\<lparr>headers := [blankCells ed er ew h]\<rparr>) =
     Inr (t\<lparr>Error := True,
            Date := (if ed then [] else Date t),
            Room := (if er then [] else Room t),
            Week := (if ew then [] else Week t)\<rparr>)"
proof -
  from assms(1) have ok: "headerOk h"
    by (simp add: parse_single_header split: if_splits)
  with assms(1) obtain g where g: "ForEach (timetables e) timetableCallback newTimetable = Inr g"
    and t: "t = withHeader (date h = [] \<or> room h = [] \<or> week h = [])
               (if date h = [] then [] else Split (date h) CHR '' '' ! 1)
               (if room h = [] then [] else Split (room h) CHR '' '' ! 2)
               (if week h = [] then [] else Split (week h) CHR '' '' ! 2) g"
    by (auto simp: parse_single_header split: sum.splits)
  have "parse (e\<lparr>headers := [blankCells ed er ew h]\<rparr>) =
      Inr (withHeader (date (blankCells ed er ew h) = [] \<or> room (blankCells ed er ew h) = []
                 \<or> week (blankCells ed er ew h) = [])
               (if date (blankCells ed er ew h) = [] then []
                else Split (date (blankCells ed er ew h)) CHR '' '' ! 1)
               (if room (blankCells ed er ew h) = [] then []
                else Split (room (blankCells ed er ew h)) CHR '' '' ! 2)
               (if week (blankCells ed er ew h) = [] then []
                else Split (week (blankCells ed er ew h)) CHR '' '' ! 2) g)"
    unfolding parse_single_header g
    using headerOk_blankCells [OF ok, of ed er ew] by simp
  also have "\<dots> = Inr (t\<lparr>Error := True,
            Date := (if ed then [] else Date t),
            Room := (if er then [] else Room t),
            Week := (if ew then [] else Week t)\<rparr>)"
    unfolding t using assms(2) by (auto simp: withHeader_def blankCells_def)
  finally show ?thesis .
qed

lemma parse_empty_cell_Error:
  assumes "parse e = Inr t" and "h \<in> set (headers e)"
    and "date h = [] \<or> room h = [] \<or> week h = []"
  shows "Error t"
proof -
  from assms(1) obtain th where th: "ForEach (headers e) headerCallback newTimetable = Inr th"
    and g: "ForEach (timetables e) timetableCallback th = Inr t"
    by (auto simp: parse_def split: sum.splits)
  from headers_Error [OF th assms(2,3)] have "Error th" .
  with g show ?thesis
    by (rule ForEach_invariant) (rule timetableCallback_Error_mono)
qed

text \<open>
  Claim C6. Take a document with one header that parses to a record, and render any of
  its three header cells empty. The document still parses: the record has \<open>Error = True\<close>,
  the field of each emptied cell is the empty string, the fields of the other cells are
  what they were (an empty date cell leaves room and week as they were), and \<open>Empty\<close> and
  the free slots from the grid are unchanged. And in any document that parses, with any
  number of headers, an empty header cell gives \<open>Error = True\<close>.
\<close>

theorem empty_header_cell_flagged_not_fatal:
  "(parse (e\<lparr>headers := [h]\<rparr>) = Inr t \<and> (ed \<or> er \<or> ew) \<longrightarrow>
      parse (e\<lparr>headers := [blankCells ed er ew h]\<rparr>) =
        Inr (t\<lparr>Error := True,
               Date := (if ed then [] else Date t),
               Room := (if er then [] else Room t),
               Week := (if ew then [] else Week t)\<rparr>)) \<and>
   (parse e = Inr t \<and> h \<in> set (headers e) \<and> (date h = [] \<or> room h = [] \<or> week h = [])
      \<longrightarrow> Error t)"
  using parse_blankCells parse_empty_cell_Error by blast

theorem empty_header_cell_flagged_not_fatal_witness:
  "parse emptyDatePage =
     Inr \<lparr>Error = True, Empty = False, Date = [], Room = ''IT101'', Week = ''34'',
          FreeTimes = [''Monday'' \<mapsto> [''09:15'', ''11:15'']]\<rparr> \<and>
   Error \<lparr>Error = True, Empty = False, Date = [], Room = ''IT101'', Week = ''34'',
          FreeTimes = [''Monday'' \<mapsto> [''09:15'', ''11:15'']]\<rparr>"
proof -
  let ?h = "\<lparr>date = ''Date: 01/02/2024'', room = ''Room : IT101'', week = ''Week : 34''\<rparr>"
  let ?t = "\<lparr>Error = False, Empty = False, Date = ''01/02/2024'', Room = ''IT101'', Week = ''34'',
          FreeTimes = [''Monday'' \<mapsto> [''09:15'', ''11:15'']]\<rparr>"
  have p: "parse (emptyDatePage\<lparr>headers := [?h]\<rparr>) = Inr ?t"
    by (simp add: emptyDatePage_def mondayGrid_def run_simps)
  have b: "emptyDatePage\<lparr>headers := [blankCells True False False ?h]\<rparr> = emptyDatePage"
    by (simp add: emptyDatePage_def blankCells_def)
  from empty_header_cell_flagged_not_fatal
    [where e = emptyDatePage and h = ?h and t = ?t and ed = True and er = False and ew = False] p
  have "parse (emptyDatePage\<lparr>headers := [blankCells True False False ?h]\<rparr>) =
      Inr (?t\<lparr>Error := True, Date := [], Room := Room ?t, Week := Week ?t\<rparr>)"
    by simp
  then have 1: "parse emptyDatePage =
      Inr \<lparr>Error = True, Empty = False, Date = [], Room = ''IT101'', Week = ''34'',
          FreeTimes = [''Monday'' \<mapsto> [''09:15'', ''11:15'']]\<rparr>"
    unfolding b by simp
  let ?h0 = "\<lparr>date = [], room = ''Room : IT101'', week = ''Week : 34''\<rparr>"
  let ?t0 = "\<lparr>Error = True, Empty = False, Date = [], Room = ''IT101'', Week = ''34'',
          FreeTimes = [''Monday'' \<mapsto> [''09:15'', ''11:15'']]\<rparr>"
  have "?h0 \<in> set (headers emptyDatePage) \<and> (date ?h0 = [] \<or> room ?h0 = [] \<or> week ?h0 = [])"
    by (simp add: emptyDatePage_def)
  with empty_header_cell_flagged_not_fatal [where e = emptyDatePage and h = ?h0 and t = ?t0] 1
  have "Error ?t0" by blast
  with 1 show ?thesis by simp
qed

section \<open>The aggregation fold\<close>

lemma fold_invariant:
  assumes "P a" and "\<And>x b. x \<in> set xs \<Longrightarrow> P b \<Longrightarrow> P (f x b)"
  shows "P (fold f xs a)"
  using assms by (induction xs arbitrary: a) auto

subsection \<open>Merging tables\<close>

lemma mergeBuckets_assoc:
  "mergeBuckets (mergeBuckets m1 m2) m3 = mergeBuckets m1 (mergeBuckets m2 m3)"
  by (rule ext) (simp add: mergeBuckets_def split: option.splits)

lemma mergeTables_assoc:
  "mergeTables (mergeTables t1 t2) t3 = mergeTables t1 (mergeTables t2 t3)"
  by (rule ext) (simp add: mergeTables_def mergeBuckets_assoc split: option.splits)

lemma mergeTables_empty [simp]:
  "mergeTables table Map.empty = table" "mergeTables Map.empty table = table"
  by (rule ext, simp add: mergeTables_def split: option.splits)+

lemma bucket_mergeTables:
  "bucket (mergeTables t1 t2) day tm = bucket t1 day tm @ bucket t2 day tm"
  by (simp add: bucket_def mergeTables_def mergeBuckets_def lookup_def split: option.splits)

lemma dom_mergeTables: "dom (mergeTables t1 t2) = dom t1 \<union> dom t2"
  by (auto simp: mergeTables_def dom_def split: option.splits)

lemma mergeBuckets_empty [simp]:
  "mergeBuckets m Map.empty = m" "mergeBuckets Map.empty m = m"
  by (rule ext, simp add: mergeBuckets_def split: option.splits)+

lemma append_mergeBuckets:
  "m(tm \<mapsto> lookup m tm @ [rm]) = mergeBuckets m [tm \<mapsto> [rm]]"
  by (rule ext) (simp add: mergeBuckets_def lookup_def split: option.splits)

lemma appendRoom_mergeTables:
  "appendRoom table day tm rm = mergeTables table [day \<mapsto> [tm \<mapsto> [rm]]]"
proof (rule ext)
  fix d
  show "appendRoom table day tm rm d = mergeTables table [day \<mapsto> [tm \<mapsto> [rm]]] d"
  proof (cases "d = day")
    case False
    then show ?thesis
      by (simp add: appendRoom_def mergeTables_def Let_def split: option.splits)
  next
    case True
    show ?thesis
    proof (cases "table day")
      case None
      with True show ?thesis
        by (simp add: appendRoom_def mergeTables_def lookup_def)
    next
      case (Some m)
      with True show ?thesis
        by (simp add: appendRoom_def mergeTables_def append_mergeBuckets)
    qed
  qed
qed

subsection \<open>Every loop body appends to the table\<close>

lemma appendsD:
  "appends F \<Longrightarrow>
   freeRoomTable (F a) = mergeTables (freeRoomTable a) (freeRoomTable (F newSummary))"
  unfolding appends_def by (rule spec)

lemma appends_comp:
  assumes "appends F" and "appends G"
  shows "appends (G \<circ> F)"
  unfolding appends_def
proof
  fix a
  have 1: "freeRoomTable (G (F a)) = mergeTables (freeRoomTable (F a)) (freeRoomTable (G newSummary))"
    using assms(2) by (rule appendsD)
  have 2: "freeRoomTable (F a) = mergeTables (freeRoomTable a) (freeRoomTable (F newSummary))"
    using assms(1) by (rule appendsD)
  have 3: "freeRoomTable (G (F newSummary)) =
      mergeTables (freeRoomTable (F newSummary)) (freeRoomTable (G newSummary))"
    using assms(2) by (rule appendsD)
  show "freeRoomTable ((G \<circ> F) a) =
      mergeTables (freeRoomTable a) (freeRoomTable ((G \<circ> F) newSummary))"
    by (simp only: comp_def 1 2 3 mergeTables_assoc)
qed

lemma appends_id: "appends (\<lambda>a. a)"
  unfolding appends_def by (simp add: newSummary_def)

lemma appends_fold:
  assumes "\<And>x. x \<in> set xs \<Longrightarrow> appends (f x)"
  shows "appends (fold f xs)"
  using assms
proof (induction xs)
  case Nil
  have "fold f [] = (\<lambda>a. a)" by (rule ext) simp
  then show ?case by (simp only: appends_id)
next
  case (Cons x xs)
  then have "appends (f x)" "appends (fold f xs)" by simp_all
  then have "appends (fold f xs \<circ> f x)" by (rule appends_comp)
  moreover have "fold f (x # xs) = fold f xs \<circ> f x" by simp
  ultimately show ?case by (simp only:)
qed

lemma appends_timeBody: "appends (timeBody timetable day tm)"
  unfolding appends_def
  by (simp add: timeBody_def appendRoom_mergeTables newSummary_def)

lemma appends_dayBody: "appends (dayBody timetable day)"
proof -
  have "appends (fold (timeBody timetable day) (lookup (FreeTimes timetable) day))"
    by (rule appends_fold) (rule appends_timeBody)
  moreover have "dayBody timetable day =
      fold (timeBody timetable day) (lookup (FreeTimes timetable) day)"
    by (rule ext) (simp add: dayBody_def)
  ultimately show ?thesis by (simp only:)
qed

lemma appends_timetableBody: "appends (timetableBody timetable)"
proof -
  let ?count = "\<lambda>a. a\<lparr>timetableCount := timetableCount a + 1,
          errorCount := (if Error timetable then errorCount a + 1 else errorCount a),
          emptyTimetableCount :=
            (if Empty timetable then emptyTimetableCount a + 1 else emptyTimetableCount a)\<rparr>"
  have 1: "appends ?count"
    unfolding appends_def by (simp add: newSummary_def)
  have 2: "appends (fold (dayBody timetable) days)"
    by (rule appends_fold) (rule appends_dayBody)
  from 1 2 have "appends (fold (dayBody timetable) days \<circ> ?count)"
    by (rule appends_comp)
  moreover have "timetableBody timetable = fold (dayBody timetable) days \<circ> ?count"
    by (rule ext) (simp add: timetableBody_def)
  ultimately show ?thesis by (simp only:)
qed

lemma aggregate_append_table:
  "freeRoomTable (aggregate (xs @ ys)) =
     mergeTables (freeRoomTable (aggregate xs)) (freeRoomTable (aggregate ys))"
proof -
  have "appends (fold timetableBody ys)"
    by (rule appends_fold) (rule appends_timetableBody)
  from appendsD [OF this, of "fold timetableBody xs newSummary"] show ?thesis
    by (simp add: aggregate_def)
qed

subsection \<open>The content of a bucket\<close>

lemma bucket_appendRoom:
  "bucket (appendRoom table day tm rm) day' tm' =
     bucket table day' tm' @ (if day = day' \<and> tm = tm' then [rm] else [])"
  by (simp add: appendRoom_mergeTables bucket_mergeTables) (simp add: bucket_def lookup_def)

lemma bucket_fold_timeBody:
  "bucket (freeRoomTable (fold (timeBody timetable day) tms a)) day' tm' =
     bucket (freeRoomTable a) day' tm' @
       (if day = day' then replicate (count_list tms tm') (Room timetable) else [])"
proof (induction tms arbitrary: a)
  case Nil
  then show ?case by simp
next
  case (Cons x tms)
  have "bucket (freeRoomTable (timeBody timetable day x a)) day' tm' =
      bucket (freeRoomTable a) day' tm' @ (if day = day' \<and> x = tm' then [Room timetable] else [])"
    by (simp add: timeBody_def bucket_appendRoom)
  with Cons.IH [of "timeBody timetable day x a"] show ?case by simp
qed

lemma bucket_fold_dayBody:
  "distinct ds \<Longrightarrow>
   bucket (freeRoomTable (fold (dayBody timetable) ds a)) day' tm' =
     bucket (freeRoomTable a) day' tm' @
       (if day' \<in> set ds
        then replicate (count_list (lookup (FreeTimes timetable) day') tm') (Room timetable)
        else [])"
proof (induction ds arbitrary: a)
  case Nil
  then show ?case by simp
next
  case (Cons d ds)
  then have d: "d \<notin> set ds" and ds: "distinct ds" by simp_all
  have step: "bucket (freeRoomTable (dayBody timetable d a)) day' tm' =
      bucket (freeRoomTable a) day' tm' @
        (if d = day' then replicate (count_list (lookup (FreeTimes timetable) d) tm') (Room timetable)
         else [])"
    by (simp add: dayBody_def bucket_fold_timeBody)
  show ?case
    using Cons.IH [OF ds, of "dayBody timetable d a"] step d by auto
qed

lemma distinct_days: "distinct days"
  by (simp add: days_def)

lemma bucket_timetableBody:
  "bucket (freeRoomTable (timetableBody timetable a)) day tm =
     bucket (freeRoomTable a) day tm @ contribution day tm timetable"
  by (simp add: timetableBody_def bucket_fold_dayBody [OF distinct_days] contribution_def)

lemma bucket_fold_timetableBody:
  "bucket (freeRoomTable (fold timetableBody tts a)) day tm =
     bucket (freeRoomTable a) day tm @ concat (map (contribution day tm) tts)"
  by (induction tts arbitrary: a) (simp_all add: bucket_timetableBody)

lemma bucket_aggregate:
  "bucket (freeRoomTable (aggregate tts)) day tm = concat (map (contribution day tm) tts)"
  by (simp add: aggregate_def bucket_fold_timetableBody) (simp add: newSummary_def bucket_def)

subsection \<open>Day keys of the table\<close>

lemma dom_aggregate: "dom (freeRoomTable (aggregate tts)) \<subseteq> set days"
  unfolding aggregate_def
proof (rule fold_invariant [where P = "\<lambda>a. dom (freeRoomTable a) \<subseteq> set days"])
  show "dom (freeRoomTable newSummary) \<subseteq> set days"
    by (simp add: newSummary_def)
  show "dom (freeRoomTable (timetableBody x b)) \<subseteq> set days"
    if "dom (freeRoomTable b) \<subseteq> set days" for x b
    unfolding timetableBody_def
  proof (rule fold_invariant [where P = "\<lambda>a. dom (freeRoomTable a) \<subseteq> set days"])
    show "dom (freeRoomTable (b\<lparr>timetableCount := timetableCount b + 1,
          errorCount := (if Error x then errorCount b + 1 else errorCount b),
          emptyTimetableCount :=
            (if Empty x then emptyTimetableCount b + 1 else emptyTimetableCount b)\<rparr>)) \<subseteq> set days"
      using that by simp
    show "dom (freeRoomTable (dayBody x d c)) \<subseteq> set days"
      if "d \<in> set days" "dom (freeRoomTable c) \<subseteq> set days" for d c
      unfolding dayBody_def
      by (rule fold_invariant [where P = "\<lambda>a. dom (freeRoomTable a) \<subseteq> set days"])
         (use that in \<open>simp_all add: timeBody_def appendRoom_mergeTables dom_mergeTables\<close>)
  qed
qed

section \<open>Claims about the aggregate table\<close>

lemma contribution_distinct:
  assumes "distinct (lookup (FreeTimes timetable) day)"
  shows "contribution day tm timetable = [] \<or> contribution day tm timetable = [Room timetable]"
proof -
  have "distinct xs \<Longrightarrow> count_list xs tm \<le> 1" for xs :: "string list"
    by (induction xs) auto
  from this [OF assms] have "count_list (lookup (FreeTimes timetable) day) tm \<le> 1" .
  then have "count_list (lookup (FreeTimes timetable) day) tm = 0 \<or>
      count_list (lookup (FreeTimes timetable) day) tm = 1" by arith
  then show ?thesis by (auto simp: contribution_def)
qed

lemma contribution_rooms:
  "set (concat (map (contribution day tm) tts)) \<subseteq> Room ` set tts"
  by (auto simp: contribution_def split: if_splits)

lemma distinct_contributions:
  assumes "distinct (map Room tts)"
    and "\<forall>timetable\<in>set tts. \<forall>d\<in>set days. distinct (lookup (FreeTimes timetable) d)"
  shows "distinct (concat (map (contribution day tm) tts))"
  using assms
proof (induction tts)
  case Nil
  then show ?case by simp
next
  case (Cons x tts)
  then have rest: "distinct (concat (map (contribution day tm) tts))"
    and new: "Room x \<notin> Room ` set tts" by simp_all
  have one: "contribution day tm x = [] \<or> contribution day tm x = [Room x]"
  proof (cases "day \<in> set days")
    case True
    with Cons.prems(2) have "distinct (lookup (FreeTimes x) day)" by simp
    then show ?thesis by (rule contribution_distinct)
  next
    case False
    then show ?thesis by (simp add: contribution_def)
  qed
  from new contribution_rooms [of day tm tts]
  have "Room x \<notin> set (concat (map (contribution day tm) tts))" by blast
  with one rest show ?case by auto
qed

text \<open>
  Claim C3 as stated fails: the parser appends one entry per free row and compares no
  times, and the fold appends the room once per entry. A grid with two free rows of the
  same time under one day gives a record with that time twice, and the bucket of that day
  and time then holds the room twice.
\<close>

theorem room_twice_in_bucket_counterexample:
  "parse repeatedTimePage = Inr repeatedTime \<and>
   bucket (freeRoomTable (aggregate [repeatedTime])) ''Monday'' ''09:15'' = [''IT101'', ''IT101'']"
proof -
  have "parse repeatedTimePage = Inr repeatedTime"
    by (simp add: repeatedTimePage_def repeatedTime_def run_simps)
  moreover have "bucket (freeRoomTable (aggregate [repeatedTime])) ''Monday'' ''09:15'' =
      [''IT101'', ''IT101'']"
    by (simp add: bucket_aggregate contribution_def repeatedTime_def days_def lookup_def)
  ultimately show ?thesis ..
qed

text \<open>
  Claim C3, amended. When the records have pairwise different rooms and no record lists a
  time twice under one of the five days, no bucket of the aggregate table holds a room
  twice.
\<close>

theorem bucket_has_no_room_twice:
  assumes "distinct (map Room tts)"
    and "\<forall>timetable\<in>set tts. \<forall>d\<in>set days. distinct (lookup (FreeTimes timetable) d)"
  shows "distinct (bucket (freeRoomTable (aggregate tts)) day tm)"
  unfolding bucket_aggregate using assms by (rule distinct_contributions)

theorem bucket_has_no_room_twice_witness:
  "distinct (bucket (freeRoomTable (aggregate [mondayFree ''IT101'', mondayFree ''IT102'']))
     ''Monday'' ''09:15'')"
proof (rule bucket_has_no_room_twice)
  show "distinct (map Room [mondayFree ''IT101'', mondayFree ''IT102''])"
    by (simp add: mondayFree_def)
  show "\<forall>timetable\<in>set [mondayFree ''IT101'', mondayFree ''IT102''].
      \<forall>d\<in>set days. distinct (lookup (FreeTimes timetable) d)"
    by (simp add: mondayFree_def days_def lookup_def)
qed

text \<open>
  Claim C4. The day keys of the free slots of a parsed record, and the day keys of the
  table aggregated from any list of records, are among the five weekday names Monday to
  Friday.
\<close>

theorem day_keys_are_weekdays:
  "(parse e = Inr t \<longrightarrow> dom (FreeTimes t) \<subseteq> set days) \<and>
   dom (freeRoomTable (aggregate tts)) \<subseteq> set days \<and>
   set days = {''Monday'', ''Tuesday'', ''Wednesday'', ''Thursday'', ''Friday''}"
  using parse_days dom_aggregate by (auto simp: days_def)

theorem day_keys_are_weekdays_witness:
  "dom (FreeTimes repeatedTime) \<subseteq> set days \<and> dom (FreeTimes repeatedTime) = {''Monday''}"
proof -
  have "parse repeatedTimePage = Inr repeatedTime"
    by (simp add: repeatedTimePage_def repeatedTime_def run_simps)
  with day_keys_are_weekdays [of repeatedTimePage repeatedTime]
  have "dom (FreeTimes repeatedTime) \<subseteq> set days" by blast
  then show ?thesis by (simp add: repeatedTime_def)
qed

text \<open>
  Claim C7. Aggregating a concatenation of two lists of records gives the table of the
  first list merged with the table of the second, the bucket lists of the second appended
  after those of the first; this holds for all lists, disjoint rooms or not. So a bucket
  is the concatenation, in the order of the records, of what each record contributes:
  two rooms IT101 and IT102 both free on Monday at 09:15 give the bucket IT101, IT102.
\<close>

theorem aggregate_append:
  "freeRoomTable (aggregate (xs @ ys)) =
     mergeTables (freeRoomTable (aggregate xs)) (freeRoomTable (aggregate ys)) \<and>
   bucket (freeRoomTable (aggregate (xs @ ys))) day tm =
     bucket (freeRoomTable (aggregate xs)) day tm @ bucket (freeRoomTable (aggregate ys)) day tm \<and>
   bucket (freeRoomTable (aggregate xs)) day tm = concat (map (contribution day tm) xs) \<and>
   bucket (freeRoomTable (aggregate [mondayFree ''IT101'', mondayFree ''IT102'']))
     ''Monday'' ''09:15'' = [''IT101'', ''IT102'']"
proof -
  have "bucket (freeRoomTable (aggregate [mondayFree ''IT101'', mondayFree ''IT102'']))
     ''Monday'' ''09:15'' = [''IT101'', ''IT102'']"
    by (simp add: bucket_aggregate contribution_def mondayFree_def days_def lookup_def)
  then show ?thesis
    by (simp add: aggregate_append_table bucket_mergeTables bucket_aggregate)
qed

theorem aggregate_append_witness:
  "freeRoomTable (aggregate ([mondayFree ''IT101''] @ [mondayFree ''IT102''])) =
     [''Monday'' \<mapsto> [''09:15'' \<mapsto> [''IT101'', ''IT102'']]]"
proof -
  have 1: "freeRoomTable (aggregate [mondayFree ''IT101'']) = [''Monday'' \<mapsto> [''09:15'' \<mapsto> [''IT101'']]]"
    by (simp add: aggregate_def timetableBody_def dayBody_def timeBody_def appendRoom_def
        mondayFree_def days_def lookup_def newSummary_def)
  have 2: "freeRoomTable (aggregate [mondayFree ''IT102'']) = [''Monday'' \<mapsto> [''09:15'' \<mapsto> [''IT102'']]]"
    by (simp add: aggregate_def timetableBody_def dayBody_def timeBody_def appendRoom_def
        mondayFree_def days_def lookup_def newSummary_def)
  have 3: "mergeTables [''Monday'' \<mapsto> [''09:15'' \<mapsto> [''IT101'']]] [''Monday'' \<mapsto> [''09:15'' \<mapsto> [''IT102'']]]
      = [''Monday'' \<mapsto> [''09:15'' \<mapsto> [''IT101'', ''IT102'']]]"
    by (rule ext) (auto simp: mergeTables_def mergeBuckets_def fun_eq_iff)
  from aggregate_append [of "[mondayFree ''IT101'']" "[mondayFree ''IT102'']"]
  show ?thesis by (simp only: 1 2 3)
qed

section \<open>Decimal rendering and parsing agree\<close>

lemma digit_cases:
  "d < 10 \<Longrightarrow> d = 0 \<or> d = 1 \<or> d = 2 \<or> d = 3 \<or> d = 4 \<or> d = 5 \<or> d = 6 \<or> d = 7 \<or> d = 8 \<or> d = (9::nat)"
  by arith

lemma digitChar_props:
  assumes "d < 10"
  shows "digitOf (digitChar d) = d" and "isDigit (digitChar d)"
    and "digitChar d \<noteq> CHR ''-''" and "digitChar d \<noteq> CHR ''+''"
  using digit_cases [OF assms]
  by (auto simp: digitChar_def digitOf_def isDigit_def)

lemma digitsValue_snoc: "digitsValue (ds @ [c]) = digitsValue ds * 10 + digitOf c"
  by (simp add: digitsValue_def)

lemma formatUint_props:
  "digitsValue (formatUint n) = n \<and> list_all isDigit (formatUint n) \<and> formatUint n \<noteq> [] \<and>
   hd (formatUint n) \<noteq> CHR ''-'' \<and> hd (formatUint n) \<noteq> CHR ''+''"
proof (induction n rule: formatUint.induct)
  case (1 n)
  show ?case
  proof (cases "n < 10")
    case True
    then have "formatUint n = [digitChar n]" by simp
    with digitChar_props [OF True] show ?thesis
      by (simp add: digitsValue_def)
  next
    case False
    then have eq: "formatUint n = formatUint (n div 10) @ [digitChar (n mod 10)]" by simp
    have m: "n mod 10 < 10" by simp
    from "1.IH" [OF False] digitChar_props [OF m] show ?thesis
      unfolding eq by (simp add: digitsValue_snoc del: formatUint.simps)
  qed
qed

lemma Atoi_Itoa: "Atoi (Itoa w) = Some w"
proof -
  let ?i = "sint w"
  have lo: "- 9223372036854775808 \<le> ?i" and hi: "?i < 9223372036854775808"
    using sint_ge [of w] sint_lt [of w] by simp_all
  show ?thesis
  proof (cases "?i < 0")
    case True
    let ?ds = "formatUint (nat (- ?i))"
    from formatUint_props [of "nat (- ?i)"]
    have p: "digitsValue ?ds = nat (- ?i)" "list_all isDigit ?ds" "?ds \<noteq> []" by simp_all
    have "Atoi (CHR ''-'' # ?ds) = Some (word_of_int (- int (nat (- ?i))))"
      using p lo True by (simp add: Atoi_def del: formatUint.simps)
    with True show ?thesis
      by (simp add: Itoa_def formatInt_def del: formatUint.simps)
  next
    case False
    let ?ds = "formatUint (nat ?i)"
    from formatUint_props [of "nat ?i"]
    have p: "digitsValue ?ds = nat ?i" "list_all isDigit ?ds" "?ds \<noteq> []"
      "hd ?ds \<noteq> CHR ''-''" "hd ?ds \<noteq> CHR ''+''" by simp_all
    have "Atoi ?ds = Some (word_of_int (int (nat ?i)))"
      using p hi False by (simp add: Atoi_def del: formatUint.simps)
    with False show ?thesis
      by (simp add: Itoa_def formatInt_def del: formatUint.simps)
  qed
qed

section \<open>One room request\<close>

lemma OnRequest_atEnd: "atEnd (roomCollector_OnRequest body)"
  by (simp add: roomCollector_OnRequest_def ReadAll_def)

lemma OnHTML_records:
  "ForEach es roomCollector_OnHTML s = Inr s' \<Longrightarrow>
   \<exists>ts. s' = s\<lparr>timetableList := timetableList s @ ts\<rparr> \<and> map parse es = map Inr ts"
proof (induction es arbitrary: s)
  case Nil
  then show ?case by simp
next
  case (Cons e es)
  from Cons.prems obtain m where m: "roomCollector_OnHTML e s = Inr m"
    and run: "ForEach es roomCollector_OnHTML m = Inr s'"
    by (auto split: sum.splits)
  from m obtain t where t: "parse e = Inr t"
    and "m = s\<lparr>timetableList := timetableList s @ [t]\<rparr>"
    by (auto simp: roomCollector_OnHTML_def split: sum.splits)
  with run
  have rest: "ForEach es roomCollector_OnHTML (s\<lparr>timetableList := timetableList s @ [t]\<rparr>) = Inr s'"
    by simp
  from Cons.IH [OF rest] obtain ts
    where "s' = s\<lparr>timetableList := timetableList s @ [t] @ ts\<rparr>" "map parse es = map Inr ts"
    by auto
  with t have "s' = s\<lparr>timetableList := timetableList s @ (t # ts)\<rparr> \<and>
      map parse (e # es) = map Inr (t # ts)" by simp
  then show ?case by blast
qed

lemma OnHTML_total:
  assumes "list_all pageOk es"
  shows "\<exists>s'. ForEach es roomCollector_OnHTML s = Inr s'"
proof -
  have "\<exists>s'. ForEach es roomCollector_OnHTML s = Inr s' \<and> True"
  proof (rule ForEach_total)
    show True ..
    show "\<exists>b. roomCollector_OnHTML x a = Inr b \<and> True" if "x \<in> set es" for x a
    proof -
      from that assms have "pageOk x" by (simp add: list_all_iff)
      then have "\<exists>t. parse x = Inr t"
        by (intro parse_total) (simp_all add: pageOk_def list_all_iff)
      then show ?thesis by (auto simp: roomCollector_OnHTML_def)
    qed
  qed
  then show ?thesis by blast
qed

text \<open>The three ways a request can go, by the connection and the answer.\<close>

lemma Request_short_body:
  "\<not> idleConn s \<Longrightarrow>
   roomCollector_Request onError (NewReader params) answer s =
     (case onError BodyLengthError (s\<lparr>idleConn := False\<rparr>) of
        Inl st \<Rightarrow> Inl st | Inr s' \<Rightarrow> Inr (Some BodyLengthError, s'))"
  by (simp add: roomCollector_Request_def roundTrip_def OnRequest_atEnd)

lemma Request_failed:
  "idleConn s \<Longrightarrow>
   roomCollector_Request onError (NewReader params) (RequestFailed err) s =
     (case onError (TransportError err) (s\<lparr>idleConn := False\<rparr>) of
        Inl st \<Rightarrow> Inl st | Inr s' \<Rightarrow> Inr (Some (TransportError err), s'))"
  by (simp add: roomCollector_Request_def roundTrip_def)

lemma Request_rendered:
  "idleConn s \<Longrightarrow>
   roomCollector_Request onError (NewReader params) (Rendered elements) s =
     (case ForEach elements roomCollector_OnHTML (s\<lparr>idleConn := True\<rparr>) of
        Inl st \<Rightarrow> Inl st | Inr s' \<Rightarrow> Inr (None, s'))"
  by (simp add: roomCollector_Request_def roundTrip_def)

text \<open>The state after the callback on a room option that matches, in \<^verbatim>\<open>room_scrape.go\<close>.\<close>

lemma roomOptionCallback_failed:
  "rx roomName \<Longrightarrow> idleConn s \<Longrightarrow>
   roomOptionCallback rx roomCollector_OnError (roomName, RequestFailed err) s =
     Inr (afterFailure roomName (TransportError err) s)"
  by (simp add: roomOptionCallback_def Request_failed roomCollector_OnError_def afterFailure_def
      Let_def)

lemma roomOptionCallback_short_body:
  "rx roomName \<Longrightarrow> \<not> idleConn s \<Longrightarrow>
   roomOptionCallback rx roomCollector_OnError (roomName, answer) s =
     Inr (afterFailure roomName BodyLengthError s)"
  by (simp add: roomOptionCallback_def Request_short_body roomCollector_OnError_def
      afterFailure_def Let_def)

lemma roomOptionCallback_rendered:
  "rx roomName \<Longrightarrow> idleConn s \<Longrightarrow>
   roomOptionCallback rx roomCollector_OnError (roomName, Rendered elements) s =
     ForEach elements roomCollector_OnHTML
       (s\<lparr>roomPostQueryParams := Values_Set (roomPostQueryParams s) ''CboLocation'' roomName,
          posted := posted s @ [Values_Set (roomPostQueryParams s) ''CboLocation'' roomName],
          idleConn := True\<rparr>)"
  by (simp add: roomOptionCallback_def Request_rendered Let_def split: sum.splits)

lemma roomOptionCallback_exit:
  "rx roomName \<Longrightarrow> idleConn s \<Longrightarrow>
   roomOptionCallback rx roomCollector_OnError_exit (roomName, RequestFailed err) s =
     Inl (Exit 1 (errorLog s @ [ErrorText (TransportError err), Message ''Requesting room failed'']))"
  by (simp add: roomOptionCallback_def Request_failed roomCollector_OnError_exit_def Let_def)

text \<open>
  What the callback on a room option does to the state, whatever way the request goes: the
  form parameters get the room when the pattern matches, one request is posted then, and
  the list of records grows at its end, by the parses of elements of the document the
  answer holds.
\<close>

lemma roomOptionCallback_frame:
  assumes "roomOptionCallback rx roomCollector_OnError opt s = Inr s'"
  shows "roomPostQueryParams s' =
           (if rx (fst opt) then Values_Set (roomPostQueryParams s) ''CboLocation'' (fst opt)
            else roomPostQueryParams s) \<and>
         posted s' =
           (if rx (fst opt)
            then posted s @ [Values_Set (roomPostQueryParams s) ''CboLocation'' (fst opt)]
            else posted s) \<and>
         (\<exists>es ts. timetableList s' = timetableList s @ ts \<and> map parse es = map Inr ts \<and>
            set es \<subseteq> set (renderedElements rx [opt]))"
proof (cases opt)
  case (Pair roomName answer)
  show ?thesis
  proof (cases "rx roomName")
    case False
    with assms Pair show ?thesis by (simp add: roomOptionCallback_def)
  next
    case True
    show ?thesis
    proof (cases "idleConn s")
      case False
      with assms Pair True have "s' = afterFailure roomName BodyLengthError s"
        by (simp add: roomOptionCallback_short_body)
      with Pair True show ?thesis by (simp add: afterFailure_def)
    next
      case idle: True
      show ?thesis
      proof (cases answer)
        case (RequestFailed err)
        with assms Pair True idle have "s' = afterFailure roomName (TransportError err) s"
          by (simp add: roomOptionCallback_failed)
        with Pair True show ?thesis by (simp add: afterFailure_def)
      next
        case (Rendered elements)
        let ?params = "Values_Set (roomPostQueryParams s) ''CboLocation'' roomName"
        let ?s1 = "s\<lparr>roomPostQueryParams := ?params, posted := posted s @ [?params],
            idleConn := True\<rparr>"
        from assms Pair True idle Rendered have "ForEach elements roomCollector_OnHTML ?s1 = Inr s'"
          by (simp add: roomOptionCallback_rendered)
        from OnHTML_records [OF this] obtain ts
          where "s' = ?s1\<lparr>timetableList := timetableList ?s1 @ ts\<rparr>"
            "map parse elements = map Inr ts" by blast
        with Pair True Rendered show ?thesis
          by (auto simp: renderedElements_def)
      qed
    qed
  qed
qed

lemma roomOptionCallback_total:
  assumes "answerOk opt"
  shows "\<exists>s'. roomOptionCallback rx roomCollector_OnError opt s = Inr s'"
proof (cases opt)
  case (Pair roomName answer)
  show ?thesis
  proof (cases "rx roomName")
    case False
    with Pair show ?thesis by (simp add: roomOptionCallback_def)
  next
    case True
    show ?thesis
    proof (cases "idleConn s")
      case False
      with Pair True show ?thesis by (simp add: roomOptionCallback_short_body)
    next
      case idle: True
      show ?thesis
      proof (cases answer)
        case (RequestFailed err)
        with Pair True idle show ?thesis by (simp add: roomOptionCallback_failed)
      next
        case (Rendered elements)
        with assms Pair have "list_all pageOk elements" by (simp add: answerOk_def)
        from OnHTML_total [OF this] Pair True idle Rendered show ?thesis
          by (simp add: roomOptionCallback_rendered)
      qed
    qed
  qed
qed

section \<open>The loop over the room options\<close>

lemma renderedElements_Cons:
  "renderedElements rx (opt # opts) = renderedElements rx [opt] @ renderedElements rx opts"
  by (simp add: renderedElements_def)

lemma options_records:
  "ForEach opts (roomOptionCallback rx roomCollector_OnError) s = Inr s' \<Longrightarrow>
   (\<exists>es ts. timetableList s' = timetableList s @ ts \<and> map parse es = map Inr ts \<and>
      set es \<subseteq> set (renderedElements rx opts)) \<and>
   length (posted s') = length (posted s) + length (filter (\<lambda>opt. rx (fst opt)) opts)"
proof (induction opts arbitrary: s)
  case Nil
  then show ?case by simp
next
  case (Cons opt opts)
  from Cons.prems obtain m where m: "roomOptionCallback rx roomCollector_OnError opt s = Inr m"
    and rest: "ForEach opts (roomOptionCallback rx roomCollector_OnError) m = Inr s'"
    by (auto split: sum.splits)
  from roomOptionCallback_frame [OF m] obtain es1 ts1
    where 1: "timetableList m = timetableList s @ ts1" "map parse es1 = map Inr ts1"
      "set es1 \<subseteq> set (renderedElements rx [opt])"
      "length (posted m) = length (posted s) + length (filter (\<lambda>opt. rx (fst opt)) [opt])"
    by auto
  from Cons.IH [OF rest] obtain es2 ts2
    where 2: "timetableList s' = timetableList m @ ts2" "map parse es2 = map Inr ts2"
      "set es2 \<subseteq> set (renderedElements rx opts)"
      "length (posted s') = length (posted m) + length (filter (\<lambda>opt. rx (fst opt)) opts)"
    by blast
  from 1 2 have "timetableList s' = timetableList s @ (ts1 @ ts2) \<and>
      map parse (es1 @ es2) = map Inr (ts1 @ ts2) \<and>
      set (es1 @ es2) \<subseteq> set (renderedElements rx (opt # opts)) \<and>
      length (posted s') =
        length (posted s) + length (filter (\<lambda>opt. rx (fst opt)) (opt # opts))"
    by (auto simp: renderedElements_Cons [of rx opt opts])
  then show ?case by blast
qed

lemma options_total:
  assumes "list_all answerOk opts"
  shows "\<exists>s'. ForEach opts (roomOptionCallback rx roomCollector_OnError) s = Inr s'"
proof -
  have "\<exists>s'. ForEach opts (roomOptionCallback rx roomCollector_OnError) s = Inr s' \<and> True"
  proof (rule ForEach_total)
    show True ..
    show "\<exists>b. roomOptionCallback rx roomCollector_OnError x a = Inr b \<and> True"
      if "x \<in> set opts" for x a
    proof -
      from that assms have "answerOk x" by (simp add: list_all_iff)
      from roomOptionCallback_total [OF this] show ?thesis by simp
    qed
  qed
  then show ?thesis by blast
qed

section \<open>The week code\<close>

lemma lookup_Values_Add:
  "lookup (Values_Add v k x) k' = (if k = k' then lookup v k @ [x] else lookup v k')"
  by (simp add: Values_Add_def lookup_def)

lemma lookup_Values_Set:
  "lookup (Values_Set v k x) k' = (if k = k' then [x] else lookup v k')"
  by (simp add: Values_Set_def lookup_def)

lemma initialParams_CboWeeks: "lookup initialParams ''CboWeeks'' = []"
  by (simp add: initialParams_def lookup_Values_Add) (simp add: lookup_def)

lemma hiddenInputs_CboWeeks:
  "lookup (fold hiddenInputCallback inps params) ''CboWeeks'' = lookup params ''CboWeeks''"
  by (rule fold_invariant [where P = "\<lambda>p. lookup p ''CboWeeks'' = lookup params ''CboWeeks''"])
     (auto simp: hiddenInputCallback_def lookup_Values_Add)

lemma roomOptionCallback_weeksIs:
  assumes "roomOptionCallback rx roomCollector_OnError opt s = Inr s'" and "weeksIs v s"
  shows "weeksIs v s'"
  using roomOptionCallback_frame [OF assms(1)] assms(2)
  by (auto simp: weeksIs_def lookup_Values_Set)

lemma weekCallback_weeksIs:
  assumes "lookup (roomPostQueryParams s) ''CboWeeks'' = []" and "posted s = []"
  shows "weeksIs (case Atoi wk of None \<Rightarrow> wk | Some weekInt \<Rightarrow> Itoa (weekInt + weekOffset))
           (weekCallback weekOffset wk s)"
  using assms by (simp add: weeksIs_def weekCallback_def lookup_Values_Add split: option.splits)

lemma bodyCallback_weeksIs:
  assumes "bodyCallback rx roomCollector_OnError weekOffset body initialState = Inr s'"
  shows "weeksIs (case Atoi (selectedWeek body) of None \<Rightarrow> selectedWeek body
                  | Some weekInt \<Rightarrow> Itoa (weekInt + weekOffset)) s'"
proof -
  let ?s1 = "initialState\<lparr>roomPostQueryParams :=
      fold hiddenInputCallback (hiddenInputs body) (roomPostQueryParams initialState)\<rparr>"
  let ?s2 = "weekCallback weekOffset (selectedWeek body) ?s1"
  from assms have run: "ForEach (roomOptions body) (roomOptionCallback rx roomCollector_OnError) ?s2
      = Inr s'"
    by (simp add: bodyCallback_def Let_def)
  have "lookup (roomPostQueryParams ?s1) ''CboWeeks'' = []" "posted ?s1 = []"
    by (simp_all add: hiddenInputs_CboWeeks initialState_def initialParams_CboWeeks)
  then have "weeksIs (case Atoi (selectedWeek body) of None \<Rightarrow> selectedWeek body
                  | Some weekInt \<Rightarrow> Itoa (weekInt + weekOffset)) ?s2"
    by (rule weekCallback_weeksIs)
  with run show ?thesis
    by (rule ForEach_invariant) (rule roomOptionCallback_weeksIs)
qed

lemma Itoa_add_in_range:
  fixes weekInt weekOffset :: "64 word"
  assumes "- 9223372036854775808 \<le> sint weekInt + sint weekOffset"
    and "sint weekInt + sint weekOffset < 9223372036854775808"
  shows "Itoa (weekInt + weekOffset) = formatInt (sint weekInt + sint weekOffset)"
proof -
  have "signed_take_bit 63 (sint weekInt + sint weekOffset) = sint weekInt + sint weekOffset"
    by (rule signed_take_bit_int_eq_self) (use assms in simp_all)
  then show ?thesis
    by (simp add: Itoa_def sint_word_add)
qed

text \<open>
  The equations that evaluate \<^verbatim>\<open>Atoi\<close> and
  \<^verbatim>\<open>Itoa\<close> on literals.
\<close>

lemmas strconv_simps =
  Atoi_def Itoa_def formatInt_def isDigit_def digitsValue_def digitChar_def digitOf_def

text \<open>
  Claim C5. In a run of the landing-page callback of \<^verbatim>\<open>room_scrape.go\<close> from the initial
  state, every request posted carries exactly one \<^verbatim>\<open>CboWeeks\<close> value: when \<^verbatim>\<open>Atoi\<close> accepts
  the selected week code, the decimal rendering of that integer plus the week offset (the
  sum of Go \<^verbatim>\<open>int\<close>s, which is the sum of the integers whenever that fits 64 bits); when
  \<^verbatim>\<open>Atoi\<close> rejects it, the raw string, with no offset. The week code 34 with the offset -1
  gives 33, and the string submitted reads back, by \<^verbatim>\<open>Atoi\<close>, as the sum. The week step
  has no failing branch: it returns a state in both cases and the room loop runs after
  it.
\<close>

theorem week_code_offset:
  "(bodyCallback rx roomCollector_OnError weekOffset body initialState = Inr s' \<and>
    r \<in> set (posted s') \<longrightarrow>
      (\<forall>weekInt. Atoi (selectedWeek body) = Some weekInt \<longrightarrow>
         lookup r ''CboWeeks'' = [Itoa (weekInt + weekOffset)]) \<and>
      (Atoi (selectedWeek body) = None \<longrightarrow> lookup r ''CboWeeks'' = [selectedWeek body])) \<and>
   (- 9223372036854775808 \<le> sint weekInt + sint weekOffset \<and>
    sint weekInt + sint weekOffset < 9223372036854775808 \<longrightarrow>
      Itoa (weekInt + weekOffset) = formatInt (sint weekInt + sint weekOffset)) \<and>
   Atoi (Itoa (weekInt + weekOffset)) = Some (weekInt + weekOffset) \<and>
   Atoi ''34'' = Some 34 \<and> Itoa (34 + (- 1)) = ''33''"
proof -
  have 1: "bodyCallback rx roomCollector_OnError weekOffset body initialState = Inr s' \<and>
    r \<in> set (posted s') \<longrightarrow>
      (\<forall>weekInt. Atoi (selectedWeek body) = Some weekInt \<longrightarrow>
         lookup r ''CboWeeks'' = [Itoa (weekInt + weekOffset)]) \<and>
      (Atoi (selectedWeek body) = None \<longrightarrow> lookup r ''CboWeeks'' = [selectedWeek body])"
  proof
    assume a: "bodyCallback rx roomCollector_OnError weekOffset body initialState = Inr s' \<and>
      r \<in> set (posted s')"
    then have run: "bodyCallback rx roomCollector_OnError weekOffset body initialState = Inr s'"
      and r: "r \<in> set (posted s')" by simp_all
    from bodyCallback_weeksIs [OF run] r
    have "lookup r ''CboWeeks'' = [case Atoi (selectedWeek body) of None \<Rightarrow> selectedWeek body
                  | Some weekInt \<Rightarrow> Itoa (weekInt + weekOffset)]"
      by (simp add: weeksIs_def list_all_iff)
    then show "(\<forall>weekInt. Atoi (selectedWeek body) = Some weekInt \<longrightarrow>
         lookup r ''CboWeeks'' = [Itoa (weekInt + weekOffset)]) \<and>
      (Atoi (selectedWeek body) = None \<longrightarrow> lookup r ''CboWeeks'' = [selectedWeek body])"
      by simp
  qed
  have 2: "- 9223372036854775808 \<le> sint weekInt + sint weekOffset \<and>
    sint weekInt + sint weekOffset < 9223372036854775808 \<longrightarrow>
      Itoa (weekInt + weekOffset) = formatInt (sint weekInt + sint weekOffset)"
    using Itoa_add_in_range by blast
  have 3: "Atoi ''34'' = Some 34" "Itoa (34 + (- 1)) = ''33''"
    by (simp_all add: strconv_simps)
  have 4: "Atoi (Itoa (weekInt + weekOffset)) = Some (weekInt + weekOffset)"
    by (rule Atoi_Itoa)
  from 1 2 3 4 show ?thesis by blast
qed

section \<open>Runs of the landing-page callback\<close>

lemma bodyCallback_total:
  assumes "list_all answerOk (roomOptions body)"
  shows "\<exists>s'. bodyCallback rx roomCollector_OnError weekOffset body s = Inr s'"
  unfolding bodyCallback_def Let_def using assms by (rule options_total)

lemma bodyCallback_posted:
  assumes "bodyCallback rx roomCollector_OnError weekOffset body initialState = Inr s'"
  shows "length (posted s') = length (filter (\<lambda>opt. rx (fst opt)) (roomOptions body))"
proof -
  let ?s1 = "initialState\<lparr>roomPostQueryParams :=
      fold hiddenInputCallback (hiddenInputs body) (roomPostQueryParams initialState)\<rparr>"
  let ?s2 = "weekCallback weekOffset (selectedWeek body) ?s1"
  from assms have "ForEach (roomOptions body) (roomOptionCallback rx roomCollector_OnError) ?s2
      = Inr s'"
    by (simp add: bodyCallback_def Let_def)
  from options_records [OF this]
  have "length (posted s') = length (posted ?s2) +
      length (filter (\<lambda>opt. rx (fst opt)) (roomOptions body))" by blast
  moreover have "posted ?s2 = []"
    by (simp add: weekCallback_def initialState_def split: option.splits)
  ultimately show ?thesis by simp
qed

theorem week_code_offset_witness:
  "(\<exists>s'. bodyCallback roomRegexp roomCollector_OnError (- 1) week34Page initialState = Inr s' \<and>
         map (\<lambda>r. lookup r ''CboWeeks'') (posted s') = [[''33'']]) \<and>
   (\<exists>s'. bodyCallback roomRegexp roomCollector_OnError (- 1) unparsedWeekPage initialState = Inr s' \<and>
         map (\<lambda>r. lookup r ''CboWeeks'') (posted s') = [[''week34'']]) \<and>
   formatInt (sint (34 :: 64 word) + sint (- 1 :: 64 word)) = ''33''"
proof -
  have ok: "pageOk sentinelPage"
    by (simp add: pageOk_def sentinelPage_def headerOk_def gridOk_def isDayMarker_def days_def)
  have a34: "Atoi ''34'' = Some 34" and i33: "Itoa (34 + (- 1)) = ''33''"
    and aw: "Atoi ''week34'' = None"
    by (simp_all add: strconv_simps)
  have "list_all answerOk (roomOptions week34Page)"
    using ok by (simp add: week34Page_def answerOk_def)
  from bodyCallback_total [OF this] obtain s1
    where s1: "bodyCallback roomRegexp roomCollector_OnError (- 1) week34Page initialState = Inr s1"
    by blast
  from bodyCallback_posted [OF s1] have "length (posted s1) = 1"
    by (simp add: week34Page_def roomRegexp_def)
  then obtain r1 where r1: "posted s1 = [r1]"
    by (cases "posted s1") auto
  from week_code_offset [of roomRegexp "- 1" week34Page s1 r1] s1 r1 a34 i33
  have "lookup r1 ''CboWeeks'' = [''33'']"
    by (simp add: week34Page_def)
  with s1 r1 have 1: "\<exists>s'. bodyCallback roomRegexp roomCollector_OnError (- 1) week34Page initialState
      = Inr s' \<and> map (\<lambda>r. lookup r ''CboWeeks'') (posted s') = [[''33'']]"
    by simp
  have "list_all answerOk (roomOptions unparsedWeekPage)"
    using ok by (simp add: unparsedWeekPage_def answerOk_def)
  from bodyCallback_total [OF this] obtain s2
    where s2: "bodyCallback roomRegexp roomCollector_OnError (- 1) unparsedWeekPage initialState
      = Inr s2"
    by blast
  from bodyCallback_posted [OF s2] have "length (posted s2) = 1"
    by (simp add: unparsedWeekPage_def roomRegexp_def)
  then obtain r2 where r2: "posted s2 = [r2]"
    by (cases "posted s2") auto
  from week_code_offset [of roomRegexp "- 1" unparsedWeekPage s2 r2] s2 r2 aw
  have "lookup r2 ''CboWeeks'' = [''week34'']"
    by (simp add: unparsedWeekPage_def)
  with s2 r2 have 2: "\<exists>s'. bodyCallback roomRegexp roomCollector_OnError (- 1) unparsedWeekPage
      initialState = Inr s' \<and> map (\<lambda>r. lookup r ''CboWeeks'') (posted s') = [[''week34'']]"
    by simp
  from week_code_offset [where weekInt = 34 and weekOffset = "- 1"] i33
  have 3: "formatInt (sint (34 :: 64 word) + sint (- 1 :: 64 word)) = ''33''"
    by simp
  from 1 2 3 show ?thesis by blast
qed

text \<open>
  Claim C8 as stated fails on the variant of the program with the webhook upload
  (\<^verbatim>\<open>unnamed/part_001\<close>): its \<^verbatim>\<open>OnError\<close> callback logs and then calls \<^verbatim>\<open>os.Exit(1)\<close>, so the
  first room request that times out ends the run and the next room is never requested.
\<close>

theorem failed_room_request_exits_counterexample:
  "ForEach twoRooms (roomOptionCallback roomRegexp_IT1xx roomCollector_OnError_exit) initialState =
     Inl (Exit 1 [ErrorText (TransportError ''timeout''), Message ''Requesting room failed''])"
  by (simp add: twoRooms_def roomOptionCallback_exit roomRegexp_IT1xx_def isDigit_def
      initialState_def)

text \<open>
  Claim C8, amended. In \<^verbatim>\<open>room_scrape.go\<close> a room request that was sent and fails with a
  timeout or a transport error is not fatal: the request was posted once, the failure is
  logged (four error records), the list of records is unchanged, and the loop goes on
  with the remaining room options. When the loop returns, one request was posted per
  matching room and the list of records has grown only by parses of documents that were
  rendered for matching rooms; and the loop does return whenever the parser panics on
  none of the documents. In the variant with the \<^verbatim>\<open>os.Exit(1)\<close> in the callback, such a
  failure ends the run with status 1 after two log records. Nothing is said here of what
  the requests after a failure come to.
\<close>

theorem failed_room_request_not_fatal:
  "(rx roomName \<and> idleConn s \<longrightarrow>
      ForEach ((roomName, RequestFailed err) # rest) (roomOptionCallback rx roomCollector_OnError) s =
        ForEach rest (roomOptionCallback rx roomCollector_OnError)
          (afterFailure roomName (TransportError err) s)) \<and>
   (ForEach opts (roomOptionCallback rx roomCollector_OnError) s = Inr s' \<longrightarrow>
      (\<exists>es ts. timetableList s' = timetableList s @ ts \<and> map parse es = map Inr ts \<and>
         set es \<subseteq> set (renderedElements rx opts)) \<and>
      length (posted s') = length (posted s) + length (filter (\<lambda>opt. rx (fst opt)) opts)) \<and>
   (list_all answerOk opts \<longrightarrow>
      (\<exists>s'. ForEach opts (roomOptionCallback rx roomCollector_OnError) s = Inr s')) \<and>
   (rx roomName \<and> idleConn s \<longrightarrow>
      ForEach ((roomName, RequestFailed err) # rest)
          (roomOptionCallback rx roomCollector_OnError_exit) s =
        Inl (Exit 1 (errorLog s @
          [ErrorText (TransportError err), Message ''Requesting room failed''])))"
  using options_records [of opts rx s s'] options_total [of opts rx s]
  by (simp add: roomOptionCallback_failed roomOptionCallback_exit)

theorem failed_room_request_not_fatal_witness:
  "(\<exists>s'. ForEach twoRooms (roomOptionCallback roomRegexp roomCollector_OnError) initialState =
          Inr s' \<and>
        timetableList s' = [] \<and>
        length (posted s') = 1 \<and>
        errorLog s' =
          [ErrorText (TransportError ''timeout''), Message ''Requesting room failed'',
           ErrorText (TransportError ''timeout''), Message ''Room POST request failed'']) \<and>
   ForEach twoRooms (roomOptionCallback roomRegexp_IT1xx roomCollector_OnError_exit) initialState =
     Inl (Exit 1 [ErrorText (TransportError ''timeout''), Message ''Requesting room failed''])"
proof -
  let ?rest = "[(''IT102'', Rendered [sentinelPage])]"
  let ?run = "\<lambda>opts. ForEach opts (roomOptionCallback roomRegexp roomCollector_OnError)"
  let ?after = "afterFailure ''IT101'' (TransportError ''timeout'') initialState"
  note inst = failed_room_request_not_fatal
    [where roomName = "''IT101''" and err = "''timeout''" and rest = ?rest
       and s = initialState and opts = twoRooms]
  have m: "roomRegexp ''IT101''" "\<not> roomRegexp ''IT102''" "roomRegexp_IT1xx ''IT101''"
    by (simp_all add: roomRegexp_def roomRegexp_IT1xx_def isDigit_def)
  have idle: "idleConn initialState"
    by (simp add: initialState_def)
  have ok: "list_all answerOk twoRooms"
    by (simp add: twoRooms_def answerOk_def pageOk_def sentinelPage_def headerOk_def gridOk_def
        isDayMarker_def days_def)
  from inst [where rx = roomRegexp] ok obtain s' where run: "?run twoRooms initialState = Inr s'"
    by blast
  from inst [where rx = roomRegexp] m(1) idle
  have step: "?run twoRooms initialState = ?run ?rest ?after"
    by (simp only: twoRooms_def)
  have "?run ?rest ?after = Inr ?after"
    using m(2) by (simp add: roomOptionCallback_def)
  with run step have s': "s' = ?after" by simp
  from inst [where rx = roomRegexp and s' = s'] run
  have posts: "length (posted s') =
      length (posted initialState) + length (filter (\<lambda>opt. roomRegexp (fst opt)) twoRooms)"
    by blast
  from posts m have 1: "length (posted s') = 1"
    by (simp add: twoRooms_def initialState_def)
  from s' have 2: "timetableList s' = []" "errorLog s' =
      [ErrorText (TransportError ''timeout''), Message ''Requesting room failed'',
       ErrorText (TransportError ''timeout''), Message ''Room POST request failed'']"
    by (simp_all add: afterFailure_def initialState_def)
  from inst [where rx = roomRegexp_IT1xx] m(3) idle
  have exit: "ForEach twoRooms (roomOptionCallback roomRegexp_IT1xx roomCollector_OnError_exit)
      initialState = Inl (Exit 1 (errorLog initialState @
        [ErrorText (TransportError ''timeout''), Message ''Requesting room failed'']))"
    by (simp only: twoRooms_def)
  from run 1 2 exit show ?thesis
    by (simp add: initialState_def)
qed

end
